theory Spec2Isabelle
  imports Main
begin

section \<open>The player2many signalling server\<close>

text \<open>
  The server of \<^verbatim>\<open>src/player2many/server.js\<close> is a single-threaded Node.js program.
  Every handler is an \<^verbatim>\<open>async\<close> function: it runs without interruption up to its
  next \<^verbatim>\<open>await\<close> of a call into the Kurento client, is suspended there, and is resumed
  when the backend settles the promise. Between the two, any other socket message and any
  other backend reply may be handled. The model makes this explicit:

  \<^item> the module-level object \<^verbatim>\<open>global\<close> is a record, \<open>world\<close>;
  \<^item> a suspended handler is a \<open>task\<close>: the \<^verbatim>\<open>await\<close> it is parked at, with the
    local variables that are still live;
  \<^item> the environment is a list of \<open>event\<close>s (socket connections and messages, backend
    replies, events of media objects, the callback of the client's constructor), so that a
    statement about all event lists is a statement about all interleavings;
  \<^item> what the server does to the outside is appended to a \<open>trace\<close>: calls into the
    backend, \<^verbatim>\<open>socket.emit\<close>, \<^verbatim>\<open>console\<close> records, \<^verbatim>\<open>global.sessions.set\<close>.
\<close>

subsection \<open>Data\<close>

type_synonym sid = string \<comment> \<open>\<^verbatim>\<open>socket.id\<close>\<close>
type_synonym handle = nat \<comment> \<open>a media object of the backend\<close>
type_synonym candidate = string
type_synonym err = string
type_synonym tid = nat \<comment> \<open>one invocation of an async function\<close>

text \<open>\<^verbatim>\<open>class Session\<close>, lines 51-59: the field \<^verbatim>\<open>socket\<close> is the key of the registry.\<close>

record session =
  webrtcEndpoint :: "handle option"
  pendingCandidates :: "candidate list"

datatype client_msg =
    CLIENT_START_PUBLISH
  | CLIENT_SDP_OFFER string
  | CLIENT_ICE_CANDIDATE candidate
  | CLIENT_DEBUG_DOT

datatype server_msg =
    SERVER_SDP_ANSWER string
  | SERVER_ICE_CANDIDATE candidate

text \<open>The calls the handlers make and whose completion they learn asynchronously.\<close>

datatype call =
    CreateMediaPipeline
  | CreatePlayerEndpoint handle
  | Play handle
  | CreateWebRtcEndpoint handle
  | ConnectTo handle handle
  | ProcessOffer handle string
  | GatherCandidates handle
  | AddIceCandidate handle candidate
  | GetGstreamerDot handle
  | GetElementGstreamerDot handle
  | WriteFile string string

datatype level = LOG | WARN | ERROR

text \<open>
  What a media object can raise, and who listens: line 183 registers a listener for
  \<^verbatim>\<open>Error\<close> on the PlayerEndpoint, lines 218 and 222 register listeners for
  \<^verbatim>\<open>Error\<close> and \<^verbatim>\<open>IceCandidateFound\<close> on the WebRtcEndpoint of a socket.
\<close>

datatype backend_event = ErrorEvent | IceCandidateFound candidate

datatype listener = OnPlayerEndpoint | OnWebRtcEndpoint sid

datatype effect =
    Call tid call
  | Emit sid server_msg
  | Console level string
  | SessionsSet sid

text \<open>
  A settled promise. The text of \<open>Resolved\<close> is the value the backend returns where the
  handler reads one (the SDP answer, the two DOT graphs); media objects are named by the
  model, from the counter \<open>next_obj\<close>, at the moment their creation resolves.
\<close>

datatype reply = Resolved string | Rejected err

text \<open>
  The suspension points. \<open>SP\<close>: \<^verbatim>\<open>handleStartPublish\<close> (lines 160, 169, 188);
  \<open>SO\<close>: \<^verbatim>\<open>handleSdpOffer\<close> (lines 212, 236, 246, 254, and 263, where it waits for the
  \<^verbatim>\<open>handleIceCandidate\<close> it called, itself parked at line 285); \<open>IC\<close>:
  \<^verbatim>\<open>handleIceCandidate\<close> called from the socket (line 285); \<open>DD\<close>: \<^verbatim>\<open>handleDebugDot\<close>
  (lines 299, 312); \<open>FS\<close>: the callback of \<^verbatim>\<open>Fs.writeFile\<close> (lines 303, 316).
  \<open>SP0\<close>: the \<^verbatim>\<open>handleStartPublish\<close> of the second server file,
  \<^verbatim>\<open>src/unnamed/part_000\<close> (lines 131, 135, 146).
\<close>

datatype task =
    SP_pipeline
  | SP_player handle
  | SP_play
  | SO_endpoint sid string
  | SO_connect sid string handle
  | SO_processOffer sid handle
  | SO_gather sid handle string
  | SO_drain sid string
  | IC_add
  | DD_pipelineDot
  | DD_playerDot
  | FS_write string
  | SP0_pipeline
  | SP0_player handle
  | SP0_play

datatype status = Running | Exited nat | Hung

record world =
  status :: status
  client :: bool \<comment> \<open>\<^verbatim>\<open>global.kurento.client\<close> is not null\<close>
  pipeline :: "handle option"
  playerEndpoint :: "handle option"
  socket :: "sid option" \<comment> \<open>\<^verbatim>\<open>global.server.socket\<close>\<close>
  sessions :: "sid \<Rightarrow> session option"
  listeners :: "handle \<Rightarrow> listener option"
  pool :: "tid \<Rightarrow> task option"
  next_tid :: nat
  next_obj :: nat
  trace :: "effect list"
  unhandled :: "err list" \<comment> \<open>rejections that no handler caught\<close>

datatype event =
    Startup "err option"
  | SocketConnect sid
  | SocketDisconnect sid
  | Recv sid client_msg
  | Reply tid reply
  | Raised handle backend_event

definition init :: world where
  "init = \<lparr> status = Running, client = False, pipeline = None, playerEndpoint = None,
            socket = None, sessions = Map.empty, listeners = Map.empty, pool = Map.empty,
            next_tid = 0, next_obj = 0, trace = [], unhandled = [] \<rparr>"

subsection \<open>Primitive steps\<close>

definition say :: "effect \<Rightarrow> world \<Rightarrow> world" where
  "say x w = w\<lparr>trace := trace w @ [x]\<rparr>"

definition console :: "level \<Rightarrow> string \<Rightarrow> world \<Rightarrow> world" where
  "console l s w = say (Console l s) w"

definition emit :: "sid \<Rightarrow> server_msg \<Rightarrow> world \<Rightarrow> world" where
  "emit i m w = say (Emit i m) w"

text \<open>\<open>await t c k\<close>: task \<open>t\<close> issues the call \<open>c\<close> and is parked at \<open>k\<close>.\<close>

definition await :: "tid \<Rightarrow> call \<Rightarrow> task \<Rightarrow> world \<Rightarrow> world" where
  "await t c k w = (say (Call t c) w)\<lparr>pool := (pool w)(t \<mapsto> k)\<rparr>"

text \<open>\<open>finish t\<close>: the async function of task \<open>t\<close> returns.\<close>

definition finish :: "tid \<Rightarrow> world \<Rightarrow> world" where
  "finish t w = w\<lparr>pool := (pool w)(t := None)\<rparr>"

text \<open>\<open>reject t e\<close>: the async function of task \<open>t\<close> throws, and nothing awaits it.\<close>

definition reject :: "tid \<Rightarrow> err \<Rightarrow> world \<Rightarrow> world" where
  "reject t e w = w\<lparr>pool := (pool w)(t := None), unhandled := unhandled w @ [e]\<rparr>"

definition new_obj :: "world \<Rightarrow> world" where
  "new_obj w = w\<lparr>next_obj := Suc (next_obj w)\<rparr>"

text \<open>\<^verbatim>\<open>Fs.writeFile(name, data, callback)\<close>: the callback is a task of its own.\<close>

definition writeFile :: "string \<Rightarrow> string \<Rightarrow> world \<Rightarrow> world" where
  "writeFile name data w =
     (await (next_tid w) (WriteFile name data) (FS_write name) w)\<lparr>next_tid := Suc (next_tid w)\<rparr>"

definition TypeError :: err where
  "TypeError = ''TypeError''"

subsection \<open>The handlers, up to their first \<^verbatim>\<open>await\<close>\<close>

text \<open>
  Lines 155-163. With \<^verbatim>\<open>client\<close> still null, \<^verbatim>\<open>client.create\<close> throws a TypeError
  inside the \<^verbatim>\<open>try\<close>.
\<close>

definition handleStartPublish :: "tid \<Rightarrow> world \<Rightarrow> world" where
  "handleStartPublish t w =
     (if client w then await t CreateMediaPipeline SP_pipeline w
      else console ERROR ''Promise ERROR:'' w)"

text \<open>Lines 196-215.\<close>

definition handleSdpOffer :: "tid \<Rightarrow> sid \<Rightarrow> string \<Rightarrow> world \<Rightarrow> world" where
  "handleSdpOffer t sessionId sdpOffer w =
     (if sessions w sessionId \<noteq> None
      then console WARN ''Skip adding session, already exists:'' w
      else
        let w1 = (say (SessionsSet sessionId) w)
                   \<lparr>sessions := (sessions w)(sessionId \<mapsto>
                       \<lparr>webrtcEndpoint = None, pendingCandidates = []\<rparr>)\<rparr>
        in case pipeline w of
             None \<Rightarrow> console ERROR ''Promise ERROR:'' w1
           | Some p \<Rightarrow> await t (CreateWebRtcEndpoint p) (SO_endpoint sessionId sdpOffer) w1)"

text \<open>
  Lines 271-292, up to the \<^verbatim>\<open>await\<close> of line 285: the function either returns, or is
  parked on the call it hands back. \<^verbatim>\<open>KurentoClient.getComplexType("IceCandidate")\<close>
  converts the candidate's representation and is the identity here.
\<close>

definition handleIceCandidate :: "sid \<Rightarrow> candidate \<Rightarrow> world \<Rightarrow> world \<times> call option" where
  "handleIceCandidate sessionId candidate w =
     (case sessions w sessionId of
        None \<Rightarrow> (console WARN ''Skip adding candidate, session doesn't exist:'' w, None)
      | Some s \<Rightarrow>
         (case webrtcEndpoint s of
            Some ep \<Rightarrow> (w, Some (AddIceCandidate ep candidate))
          | None \<Rightarrow>
             (w\<lparr>sessions := (sessions w)(sessionId \<mapsto>
                   s\<lparr>pendingCandidates := pendingCandidates s @ [candidate]\<rparr>)\<rparr>, None)))"

text \<open>Lines 296-302.\<close>

definition handleDebugDot :: "tid \<Rightarrow> world \<Rightarrow> world" where
  "handleDebugDot t w =
     (case pipeline w of
        None \<Rightarrow> console ERROR ''Promise ERROR:'' w
      | Some p \<Rightarrow> await t (GetGstreamerDot p) DD_pipelineDot w)"

text \<open>
  Lines 259-266, the loop that empties \<^verbatim>\<open>pendingCandidates\<close> and the \<^verbatim>\<open>emit\<close> after it.
  Each round shifts one candidate and calls \<^verbatim>\<open>handleIceCandidate\<close>; when that call is
  parked on the backend, so is the loop. A round whose candidate is pushed back makes no
  progress, and the loop then never ends: the value \<open>None\<close>. The Session is the entry
  of the registry (no code deletes or replaces an entry), so a missing entry is read as an
  empty array.
\<close>

partial_function (option) drainLoop :: "tid \<Rightarrow> sid \<Rightarrow> string \<Rightarrow> world \<Rightarrow> world option" where
  "drainLoop t sessionId sdpAnswer w =
     (case sessions w sessionId of
        None \<Rightarrow> Some (finish t (emit sessionId (SERVER_SDP_ANSWER sdpAnswer) w))
      | Some s \<Rightarrow>
         (case pendingCandidates s of
            [] \<Rightarrow> Some (finish t (emit sessionId (SERVER_SDP_ANSWER sdpAnswer) w))
          | candidate # rest \<Rightarrow>
             (case handleIceCandidate sessionId candidate
                     (w\<lparr>sessions := (sessions w)(sessionId \<mapsto> s\<lparr>pendingCandidates := rest\<rparr>)\<rparr>) of
                (w', Some c) \<Rightarrow> Some (await t c (SO_drain sessionId sdpAnswer) w')
              | (w', None) \<Rightarrow> drainLoop t sessionId sdpAnswer w')))"

definition drain :: "tid \<Rightarrow> sid \<Rightarrow> string \<Rightarrow> world \<Rightarrow> world" where
  "drain t sessionId sdpAnswer w =
     (case drainLoop t sessionId sdpAnswer w of
        Some w' \<Rightarrow> w'
      | None \<Rightarrow> w\<lparr>status := Hung\<rparr>)"

subsection \<open>The handlers, from one \<^verbatim>\<open>await\<close> to the next\<close>

text \<open>
  \<open>catch\<close> is the handler every \<^verbatim>\<open>try\<close> of the file has:
  \<^verbatim>\<open>return console.error("Promise ERROR:", err)\<close>.

  A handler holds its Session in a local variable; the model finds it in the registry,
  under the socket's identity. The two are the same object as long as the entry is
  neither deleted nor replaced, which \<open>inv_offer\<close> and \<open>inv_reg\<close> below establish
  for every state the server reaches.
\<close>

definition catch :: "tid \<Rightarrow> world \<Rightarrow> world" where
  "catch t w = finish t (console ERROR ''Promise ERROR:'' w)"

fun resume :: "tid \<Rightarrow> task \<Rightarrow> reply \<Rightarrow> world \<Rightarrow> world" where
  \<comment> \<open>\<^verbatim>\<open>handleStartPublish\<close>, lines 164-192\<close>
  "resume t SP_pipeline (Rejected e) w = catch t w"
| "resume t SP_pipeline (Resolved v) w =
     (let p = next_obj w;
          w1 = console LOG ''Kurento pipeline created'' ((new_obj w)\<lparr>pipeline := Some p\<rparr>)
      in await t (CreatePlayerEndpoint p) (SP_player p) w1)"
| "resume t (SP_player p) (Rejected e) w = catch t w"
| "resume t (SP_player p) (Resolved v) w =
     (let pe = next_obj w;
          w1 = console LOG ''Kurento PlayerEndpoint created''
                 ((new_obj w)\<lparr>playerEndpoint := Some pe\<rparr>);
          w2 = w1\<lparr>listeners := (listeners w1)(pe \<mapsto> OnPlayerEndpoint)\<rparr>
      in await t (Play pe) SP_play w2)"
| "resume t SP_play (Rejected e) w = catch t w"
| "resume t SP_play (Resolved v) w = finish t w"
  \<comment> \<open>\<^verbatim>\<open>handleSdpOffer\<close>, lines 216-267\<close>
| "resume t (SO_endpoint i sdpOffer) (Rejected e) w = catch t w"
| "resume t (SO_endpoint i sdpOffer) (Resolved v) w =
     (let ep = next_obj w;
          w1 = (new_obj w)\<lparr>sessions :=
                 (case sessions w i of
                    None \<Rightarrow> sessions w
                  | Some s \<Rightarrow> (sessions w)(i \<mapsto> s\<lparr>webrtcEndpoint := Some ep\<rparr>))\<rparr>;
          w2 = w1\<lparr>listeners := (listeners w1)(ep \<mapsto> OnWebRtcEndpoint i)\<rparr>
      in case playerEndpoint w of
           None \<Rightarrow> finish t (console ERROR ''ERROR: Publisher endpoint doesn't exist'' w2)
         | Some pe \<Rightarrow> await t (ConnectTo pe ep) (SO_connect i sdpOffer ep) w2)"
| "resume t (SO_connect i sdpOffer ep) (Rejected e) w = catch t w"
| "resume t (SO_connect i sdpOffer ep) (Resolved v) w =
     await t (ProcessOffer ep sdpOffer) (SO_processOffer i ep)
       (console LOG ''SDP Offer from App to KMS:'' w)"
| "resume t (SO_processOffer i ep) (Rejected e) w = catch t w"
| "resume t (SO_processOffer i ep) (Resolved sdpAnswer) w =
     await t (GatherCandidates ep) (SO_gather i ep sdpAnswer)
       (console LOG ''SDP Answer from KMS to App:'' w)"
| "resume t (SO_gather i ep sdpAnswer) (Rejected e) w = catch t w"
| "resume t (SO_gather i ep sdpAnswer) (Resolved v) w = drain t i sdpAnswer w"
| "resume t (SO_drain i sdpAnswer) (Rejected e) w =
     drain t i sdpAnswer (console ERROR ''Promise ERROR: {}, candidate: {}'' w)"
| "resume t (SO_drain i sdpAnswer) (Resolved v) w = drain t i sdpAnswer w"
  \<comment> \<open>\<^verbatim>\<open>handleIceCandidate\<close>, lines 286-288\<close>
| "resume t IC_add (Rejected e) w =
     finish t (console ERROR ''Promise ERROR: {}, candidate: {}'' w)"
| "resume t IC_add (Resolved v) w = finish t w"
  \<comment> \<open>\<^verbatim>\<open>handleDebugDot\<close>, lines 300-322\<close>
| "resume t DD_pipelineDot (Rejected e) w = catch t w"
| "resume t DD_pipelineDot (Resolved pipelineDot) w =
     (let w1 = writeFile ''pipeline.dot'' pipelineDot w
      in case playerEndpoint w of
           None \<Rightarrow> catch t w1
         | Some pe \<Rightarrow> await t (GetElementGstreamerDot pe) DD_playerDot w1)"
| "resume t DD_playerDot (Rejected e) w = catch t w"
| "resume t DD_playerDot (Resolved playerDot) w =
     finish t (writeFile ''playerEndpoint.dot'' playerDot w)"
| "resume t (FS_write name) (Rejected e) w = finish t (console ERROR ''ERROR:'' w)"
| "resume t (FS_write name) (Resolved v) w =
     finish t (console LOG (''Saved DOT file: '' @ name) w)"
  \<comment> \<open>\<^verbatim>\<open>handleStartPublish\<close> of \<^verbatim>\<open>src/unnamed/part_000\<close>, lines 131-147: no \<^verbatim>\<open>try\<close>\<close>
| "resume t SP0_pipeline (Rejected e) w = reject t e w"
| "resume t SP0_pipeline (Resolved v) w =
     (let p = next_obj w;
          w1 = console LOG ''Kurento pipeline created'' ((new_obj w)\<lparr>pipeline := Some p\<rparr>)
      in await t (CreatePlayerEndpoint p) (SP0_player p) w1)"
| "resume t (SP0_player p) (Rejected e) w = reject t e w"
| "resume t (SP0_player p) (Resolved v) w =
     (let pe = next_obj w;
          w1 = console LOG ''Kurento PlayerEndpoint created''
                 ((new_obj w)\<lparr>playerEndpoint := Some pe\<rparr>)
      in await t (Play pe) SP0_play w1)"
| "resume t SP0_play (Rejected e) w = reject t e w"
| "resume t SP0_play (Resolved v) w = finish t w"

subsection \<open>The event loop\<close>

text \<open>
  Lines 111-130 and 142-150. A socket message starts its handler as a new task. The
  \<^verbatim>\<open>connect\<close> listener registers the four message listeners and nothing else: a
  socket that disconnects raises no code of the server. A process that has exited, or
  that spins in a loop, handles no further event.
\<close>

definition dispatch :: "tid \<Rightarrow> sid \<Rightarrow> client_msg \<Rightarrow> world \<Rightarrow> world" where
  "dispatch t i m w =
     (case m of
        CLIENT_START_PUBLISH \<Rightarrow> handleStartPublish t w
      | CLIENT_SDP_OFFER sdpOffer \<Rightarrow> handleSdpOffer t i sdpOffer w
      | CLIENT_ICE_CANDIDATE candidate \<Rightarrow>
          (case handleIceCandidate i candidate w of
             (w', Some c) \<Rightarrow> await t c IC_add w'
           | (w', None) \<Rightarrow> w')
      | CLIENT_DEBUG_DOT \<Rightarrow> handleDebugDot t w)"

text \<open>Lines 183-185 and 218-227: the listeners on the media objects.\<close>

definition raised :: "handle \<Rightarrow> backend_event \<Rightarrow> world \<Rightarrow> world" where
  "raised h ev w =
     (case listeners w h of
        None \<Rightarrow> w
      | Some OnPlayerEndpoint \<Rightarrow>
          (case ev of
             ErrorEvent \<Rightarrow> console ERROR ''PlayerEndpoint ERROR:'' w
           | IceCandidateFound c \<Rightarrow> w)
      | Some (OnWebRtcEndpoint i) \<Rightarrow>
          (case ev of
             ErrorEvent \<Rightarrow> console ERROR ''WebRtcEndpoint ERROR:'' w
           | IceCandidateFound c \<Rightarrow> emit i (SERVER_ICE_CANDIDATE c) w))"

definition step :: "world \<Rightarrow> event \<Rightarrow> world" where
  "step w ev =
     (if status w \<noteq> Running then w
      else case ev of
        Startup (Some e) \<Rightarrow>
          (console ERROR ''Exit: Kurento Media Server not listening'' w)\<lparr>status := Exited 1\<rparr>
      | Startup None \<Rightarrow> console LOG ''Kurento client connected'' (w\<lparr>client := True\<rparr>)
      | SocketConnect i \<Rightarrow>
          (console LOG ''WebSocket server connected, port: %s'' w)\<lparr>socket := Some i\<rparr>
      | SocketDisconnect i \<Rightarrow> w
      | Recv i m \<Rightarrow> dispatch (next_tid w) i m (w\<lparr>next_tid := Suc (next_tid w)\<rparr>)
      | Reply t r \<Rightarrow>
          (case pool w t of
             None \<Rightarrow> w
           | Some k \<Rightarrow> resume t k r w)
      | Raised h ev \<Rightarrow> raised h ev w)"

definition run :: "world \<Rightarrow> event list \<Rightarrow> world" where
  "run = foldl step"

subsection \<open>The publish handler of the second server file\<close>

text \<open>
  \<^verbatim>\<open>src/unnamed/part_000\<close>, lines 95 and 128-147: \<^verbatim>\<open>handleStartPublish\<close> is registered
  as the listener itself and has no \<^verbatim>\<open>try\<close>, so an exception in it rejects a promise
  that nobody holds. Its last call, \<^verbatim>\<open>playerEndpoint.play()\<close>, is not awaited: the
  promise of that call is left to itself, which is the task \<open>SP0_play\<close>. \<open>step0\<close> is
  this handler alone; the file's other handlers are not modelled.
\<close>

definition handleStartPublish0 :: "tid \<Rightarrow> world \<Rightarrow> world" where
  "handleStartPublish0 t w =
     (if client w then await t CreateMediaPipeline SP0_pipeline w
      else reject t TypeError w)"

definition step0 :: "world \<Rightarrow> event \<Rightarrow> world" where
  "step0 w ev =
     (if status w \<noteq> Running then w
      else case ev of
        Startup (Some e) \<Rightarrow>
          (console ERROR ''Exit: Kurento Media Server not listening'' w)\<lparr>status := Exited 1\<rparr>
      | Startup None \<Rightarrow> console LOG ''Kurento client connected'' (w\<lparr>client := True\<rparr>)
      | SocketConnect i \<Rightarrow>
          (console LOG ''WebSocket server connected, port: %s'' w)\<lparr>socket := Some i\<rparr>
      | Recv i CLIENT_START_PUBLISH \<Rightarrow>
          handleStartPublish0 (next_tid w) (w\<lparr>next_tid := Suc (next_tid w)\<rparr>)
      | Reply t r \<Rightarrow>
          (case pool w t of
             None \<Rightarrow> w
           | Some k \<Rightarrow> resume t k r w)
      | _ \<Rightarrow> w)"

definition run0 :: "world \<Rightarrow> event list \<Rightarrow> world" where
  "run0 = foldl step0"

subsection \<open>Observations\<close>

text \<open>The viewer whose offer a task is handling.\<close>

fun offer_sid :: "task \<Rightarrow> sid option" where
  "offer_sid (SO_endpoint i sdpOffer) = Some i"
| "offer_sid (SO_connect i sdpOffer ep) = Some i"
| "offer_sid (SO_processOffer i ep) = Some i"
| "offer_sid (SO_gather i ep sdpAnswer) = Some i"
| "offer_sid (SO_drain i sdpAnswer) = Some i"
| "offer_sid _ = None"

fun is_answer :: "sid \<Rightarrow> effect \<Rightarrow> bool" where
  "is_answer i (Emit j (SERVER_SDP_ANSWER a)) = (i = j)"
| "is_answer i _ = False"

text \<open>How many \<^verbatim>\<open>SERVER_SDP_ANSWER\<close> were emitted on socket \<open>i\<close>.\<close>

definition answers :: "sid \<Rightarrow> world \<Rightarrow> nat" where
  "answers i w = length (filter (is_answer i) (trace w))"

text \<open>How often \<^verbatim>\<open>global.sessions.set\<close> stored a new Session under \<open>i\<close>.\<close>

definition sessionsCreated :: "sid \<Rightarrow> world \<Rightarrow> nat" where
  "sessionsCreated i w = length (filter (\<lambda>x. x = SessionsSet i) (trace w))"

fun is_pipeline_call :: "effect \<Rightarrow> bool" where
  "is_pipeline_call (Call t CreateMediaPipeline) = True"
| "is_pipeline_call _ = False"

text \<open>How many pipelines the server asked the backend to create.\<close>

definition pipelineCalls :: "world \<Rightarrow> nat" where
  "pipelineCalls w = length (filter is_pipeline_call (trace w))"

text \<open>How many pipelines were created: line 165 logs each one.\<close>

definition pipelinesCreated :: "world \<Rightarrow> nat" where
  "pipelinesCreated w =
     length (filter (\<lambda>x. x = Console LOG ''Kurento pipeline created'') (trace w))"


text \<open>The calls that task \<open>t\<close> made, in order.\<close>

fun calls_by :: "tid \<Rightarrow> effect list \<Rightarrow> call list" where
  "calls_by t [] = []"
| "calls_by t (Call u c # xs) = (if u = t then c # calls_by t xs else calls_by t xs)"
| "calls_by t (x # xs) = calls_by t xs"

text \<open>The candidates handed to the backend, in the order of the calls.\<close>

fun applied :: "effect list \<Rightarrow> candidate list" where
  "applied [] = []"
| "applied (Call u (AddIceCandidate ep c) # xs) = c # applied xs"
| "applied (x # xs) = applied xs"

text \<open>The replies that an event list holds for task \<open>t\<close>, and the candidates it brings on socket \<open>i\<close>.\<close>

fun replies_to :: "tid \<Rightarrow> event list \<Rightarrow> reply list" where
  "replies_to t [] = []"
| "replies_to t (Reply u r # es) = (if u = t then r # replies_to t es else replies_to t es)"
| "replies_to t (e # es) = replies_to t es"

fun candidates_on :: "sid \<Rightarrow> event list \<Rightarrow> candidate list" where
  "candidates_on i [] = []"
| "candidates_on i (Recv j (CLIENT_ICE_CANDIDATE c) # es) =
     (if j = i then c # candidates_on i es else candidates_on i es)"
| "candidates_on i (e # es) = candidates_on i es"

subsection \<open>Invariants\<close>

text \<open>
  A task of \<^verbatim>\<open>handleStartPublish\<close> that waits for its PlayerEndpoint has stored its
  pipeline already (line 164).
\<close>

definition inv_pub :: "world \<Rightarrow> bool" where
  "inv_pub w \<longleftrightarrow>
     (playerEndpoint w \<noteq> None \<longrightarrow> pipeline w \<noteq> None) \<and>
     (\<forall>t p. pool w t = Some (SP_player p) \<or> pool w t = Some (SP0_player p)
        \<longrightarrow> pipeline w \<noteq> None)"

text \<open>Task identifiers are given out in order, so a new task never takes a parked one's place.\<close>

definition inv_pool :: "world \<Rightarrow> bool" where
  "inv_pool w \<longleftrightarrow> (\<forall>t k. pool w t = Some k \<longrightarrow> t < next_tid w)"

text \<open>
  What a parked offer handler knows of its Session: the endpoint is assigned at line 216,
  between the first and the second \<^verbatim>\<open>await\<close>, and by no other line.
\<close>

fun stage_ok :: "task \<Rightarrow> session \<Rightarrow> bool" where
  "stage_ok (SO_endpoint i sdpOffer) s = (webrtcEndpoint s = None)"
| "stage_ok (SO_connect i sdpOffer ep) s = (webrtcEndpoint s = Some ep)"
| "stage_ok (SO_processOffer i ep) s = (webrtcEndpoint s = Some ep)"
| "stage_ok (SO_gather i ep sdpAnswer) s = (webrtcEndpoint s = Some ep)"
| "stage_ok (SO_drain i sdpAnswer) s = (webrtcEndpoint s \<noteq> None)"
| "stage_ok _ s = True"

text \<open>
  Every parked offer handler has its Session in the registry, and a socket has at most one
  offer handler parked.
\<close>

definition inv_offer :: "world \<Rightarrow> bool" where
  "inv_offer w \<longleftrightarrow>
     (\<forall>t k i. pool w t = Some k \<and> offer_sid k = Some i \<longrightarrow>
        (\<exists>s. sessions w i = Some s \<and> stage_ok k s)) \<and>
     (\<forall>t t' k k' i. pool w t = Some k \<and> pool w t' = Some k' \<and>
        offer_sid k = Some i \<and> offer_sid k' = Some i \<longrightarrow> t = t')"

text \<open>
  No rejection escapes, no loop spins, no task of the other server file is parked, and the
  only exit is the one of line 145.
\<close>

fun is_SP0 :: "task \<Rightarrow> bool" where
  "is_SP0 SP0_pipeline = True"
| "is_SP0 (SP0_player p) = True"
| "is_SP0 SP0_play = True"
| "is_SP0 _ = False"

definition inv_safe :: "world \<Rightarrow> bool" where
  "inv_safe w \<longleftrightarrow>
     unhandled w = [] \<and> (status w = Running \<or> status w = Exited 1) \<and>
     (\<forall>t k. pool w t = Some k \<longrightarrow> \<not> is_SP0 k)"

fun is_startup_error :: "event \<Rightarrow> bool" where
  "is_startup_error (Startup (Some e)) = True"
| "is_startup_error _ = False"

text \<open>\<^verbatim>\<open>global.sessions.set\<close> runs for a key at most once, and only then is the key present.\<close>

definition inv_reg :: "world \<Rightarrow> bool" where
  "inv_reg w \<longleftrightarrow>
     (\<forall>i. sessionsCreated i w \<le> 1 \<and> (sessions w i = None \<longrightarrow> sessionsCreated i w = 0))"


text \<open>No offer handler is parked for socket \<open>i\<close>.\<close>

definition no_offer :: "world \<Rightarrow> sid \<Rightarrow> bool" where
  "no_offer w i \<longleftrightarrow> (\<forall>t k. pool w t = Some k \<longrightarrow> offer_sid k \<noteq> Some i)"

text \<open>
  A socket gets at most one answer, none while its offer handler is parked or before it
  has a Session, and when it has got one, its Session has an endpoint and an empty queue.
\<close>

definition inv_ans :: "world \<Rightarrow> bool" where
  "inv_ans w \<longleftrightarrow>
     (\<forall>i. answers i w \<le> 1 \<and>
          (\<not> no_offer w i \<longrightarrow> answers i w = 0) \<and>
          (sessions w i = None \<longrightarrow> answers i w = 0) \<and>
          (0 < answers i w \<longrightarrow>
             (\<exists>s ep. sessions w i = Some s \<and> webrtcEndpoint s = Some ep \<and>
                      pendingCandidates s = [])))"

text \<open>
  How many of the four calls of lines 212-254 an offer handler has still to see resolved.
\<close>

fun stage_left :: "task \<Rightarrow> nat" where
  "stage_left (SO_endpoint i sdpOffer) = 4"
| "stage_left (SO_connect i sdpOffer ep) = 3"
| "stage_left (SO_processOffer i ep) = 2"
| "stage_left (SO_gather i ep sdpAnswer) = 1"
| "stage_left _ = 0"

fun is_resolved :: "reply \<Rightarrow> bool" where
  "is_resolved (Resolved v) = True"
| "is_resolved (Rejected e) = False"


text \<open>Every call in the trace was made by a task that has been started.\<close>

fun caller_below :: "nat \<Rightarrow> effect \<Rightarrow> bool" where
  "caller_below n (Call t c) = (t < n)"
| "caller_below n _ = True"

definition inv_trace :: "world \<Rightarrow> bool" where
  "inv_trace w \<longleftrightarrow> list_all (caller_below (next_tid w)) (trace w)"

text \<open>The tasks of \<^verbatim>\<open>handleStartPublish\<close>.\<close>

fun publishing :: "task \<Rightarrow> bool" where
  "publishing SP_pipeline = True"
| "publishing (SP_player p) = True"
| "publishing SP_play = True"
| "publishing _ = False"

text \<open>
  An event list up to the first reply to task \<open>t\<close>, and after it; and a list without
  failed start of the Kurento client.
\<close>

fun before_reply :: "tid \<Rightarrow> event list \<Rightarrow> event list" where
  "before_reply t [] = []"
| "before_reply t (Reply u r # es) = (if u = t then [] else Reply u r # before_reply t es)"
| "before_reply t (e # es) = e # before_reply t es"

fun after_reply :: "tid \<Rightarrow> event list \<Rightarrow> event list" where
  "after_reply t [] = []"
| "after_reply t (Reply u r # es) = (if u = t then es else after_reply t es)"
| "after_reply t (e # es) = after_reply t es"

definition no_startup_error :: "event list \<Rightarrow> bool" where
  "no_startup_error es = list_all (\<lambda>e. \<not> is_startup_error e) es"

text \<open>The \<^verbatim>\<open>SERVER_SDP_ANSWER\<close> messages sent on socket \<open>i\<close>, in order.\<close>

definition answered :: "sid \<Rightarrow> world \<Rightarrow> effect list" where
  "answered i w = filter (is_answer i) (trace w)"

section \<open>Properties\<close>

subsection \<open>Unfolding the model\<close>

lemmas prims = say_def console_def emit_def await_def finish_def reject_def new_obj_def
  writeFile_def catch_def

lemmas handlers = step_def dispatch_def handleStartPublish_def handleSdpOffer_def
  handleIceCandidate_def handleDebugDot_def

text \<open>An event of a media object changes nothing but the trace, by a log record or a candidate
  for the viewer.\<close>

lemma raised_fields [simp]:
  "status (raised h ev w) = status w"
  "client (raised h ev w) = client w"
  "pipeline (raised h ev w) = pipeline w"
  "playerEndpoint (raised h ev w) = playerEndpoint w"
  "sessions (raised h ev w) = sessions w"
  "listeners (raised h ev w) = listeners w"
  "pool (raised h ev w) = pool w"
  "next_tid (raised h ev w) = next_tid w"
  "next_obj (raised h ev w) = next_obj w"
  "unhandled (raised h ev w) = unhandled w"
  by (auto simp: raised_def prims split: option.splits listener.splits backend_event.splits)

lemma raised_trace [simp]:
  "filter (is_answer i) (trace (raised h ev w)) = filter (is_answer i) (trace w)"
  "filter (\<lambda>x. x = SessionsSet i) (trace (raised h ev w)) = filter (\<lambda>x. x = SessionsSet i) (trace w)"
  "filter is_pipeline_call (trace (raised h ev w)) = filter is_pipeline_call (trace w)"
  "filter (\<lambda>x. x = Console LOG ''Kurento pipeline created'') (trace (raised h ev w)) =
     filter (\<lambda>x. x = Console LOG ''Kurento pipeline created'') (trace w)"
  by (auto simp: raised_def prims split: option.splits listener.splits backend_event.splits)

lemma raised_observed [simp]:
  "answers i (raised h ev w) = answers i w"
  "sessionsCreated i (raised h ev w) = sessionsCreated i w"
  "pipelineCalls (raised h ev w) = pipelineCalls w"
  "pipelinesCreated (raised h ev w) = pipelinesCreated w"
  by (simp_all add: answers_def sessionsCreated_def pipelineCalls_def pipelinesCreated_def)

text \<open>
  The loop of lines 261-264 never ends when it starts on a non-empty array of a Session
  without endpoint: each round pushes back what it shifted.
\<close>

lemma drainLoop_stuck:
  assumes "drainLoop t i a w = Some y"
  shows "\<not> (\<exists>s. sessions w i = Some s \<and> webrtcEndpoint s = None \<and> pendingCandidates s \<noteq> [])"
proof (rule drainLoop.raw_induct
    [where P = "\<lambda>t i a w y. \<not> (\<exists>s. sessions w i = Some s \<and> webrtcEndpoint s = None
                                    \<and> pendingCandidates s \<noteq> [])", OF _ assms], goal_cases)
  case (1 f t i a w y)
  show ?case
  proof
    assume "\<exists>s. sessions w i = Some s \<and> webrtcEndpoint s = None \<and> pendingCandidates s \<noteq> []"
    then obtain s c rest where s: "sessions w i = Some s" "webrtcEndpoint s = None"
      "pendingCandidates s = c # rest"
      by (metis list.exhaust)
    let ?w' = "w\<lparr>sessions := (sessions w)(i \<mapsto> s\<lparr>pendingCandidates := rest @ [c]\<rparr>)\<rparr>"
    from 1(2) s have "f t i a ?w' = Some y"
      by (simp add: handleIceCandidate_def)
    from 1(1)[OF this] show False using s by simp
  qed
qed

text \<open>One round of the loop, in closed form.\<close>

lemma drain_eq:
  "drain t i a w =
     (case sessions w i of
        None \<Rightarrow> finish t (emit i (SERVER_SDP_ANSWER a) w)
      | Some s \<Rightarrow>
         (case pendingCandidates s of
            [] \<Rightarrow> finish t (emit i (SERVER_SDP_ANSWER a) w)
          | c # rest \<Rightarrow>
             (case webrtcEndpoint s of
                Some ep \<Rightarrow> await t (AddIceCandidate ep c) (SO_drain i a)
                             (w\<lparr>sessions := (sessions w)(i \<mapsto> s\<lparr>pendingCandidates := rest\<rparr>)\<rparr>)
              | None \<Rightarrow> w\<lparr>status := Hung\<rparr>)))"
proof (cases "sessions w i")
  case None
  then show ?thesis by (simp add: drain_def drainLoop.simps)
next
  case (Some s)
  show ?thesis
  proof (cases "pendingCandidates s")
    case Nil
    with Some show ?thesis by (simp add: drain_def drainLoop.simps)
  next
    case (Cons c rest)
    show ?thesis
    proof (cases "webrtcEndpoint s")
      case None
      have "drainLoop t i a w = None"
      proof (cases "drainLoop t i a w")
        case (Some y)
        from drainLoop_stuck[OF this] \<open>sessions w i = Some s\<close> None Cons show ?thesis by simp
      qed simp
      with Some Cons None show ?thesis by (simp add: drain_def)
    next
      case (Some ep)
      with \<open>sessions w i = Some s\<close> Cons show ?thesis
        by (simp add: drain_def drainLoop.simps handleIceCandidate_def)
    qed
  qed
qed

lemma run_Nil [simp]: "run w [] = w"
  by (simp add: run_def)

lemma run_Cons [simp]: "run w (e # es) = run (step w e) es"
  by (simp add: run_def)

lemma run_append: "run w (es @ es') = run (run w es) es'"
  by (simp add: run_def)

lemma run0_Nil [simp]: "run0 w [] = w"
  by (simp add: run0_def)

lemma run0_Cons [simp]: "run0 w (e # es) = run0 (step0 w e) es"
  by (simp add: run0_def)

text \<open>A process that has stopped stays as it is.\<close>

lemma step_stopped: "status w \<noteq> Running \<Longrightarrow> step w e = w"
  by (simp add: step_def)

lemma run_stopped: "status w \<noteq> Running \<Longrightarrow> run w es = w"
  by (induction es) (simp_all add: step_stopped)

lemma run_invariant:
  assumes "P w" and "\<And>w e. P w \<Longrightarrow> P (step w e)"
  shows "P (run w es)"
  using assms(1) by (induction es arbitrary: w) (simp_all add: assms(2))

text \<open>What it takes for a property of the state to survive one event.\<close>

lemma step_preserves:
  assumes "P w"
    and "\<And>t k r. status w = Running \<Longrightarrow> pool w t = Some k \<Longrightarrow> P (resume t k r w)"
    and "\<And>i m. status w = Running \<Longrightarrow>
            P (dispatch (next_tid w) i m (w\<lparr>next_tid := Suc (next_tid w)\<rparr>))"
    and "status w = Running \<Longrightarrow>
            P ((console ERROR ''Exit: Kurento Media Server not listening'' w)
                 \<lparr>status := Exited 1\<rparr>)"
    and "status w = Running \<Longrightarrow> P (console LOG ''Kurento client connected'' (w\<lparr>client := True\<rparr>))"
    and "\<And>i. status w = Running \<Longrightarrow>
            P ((console LOG ''WebSocket server connected, port: %s'' w)\<lparr>socket := Some i\<rparr>)"
    and "\<And>h ev. status w = Running \<Longrightarrow> P (raised h ev w)"
  shows "P (step w e)"
proof (cases "status w = Running")
  case False
  with assms(1) show ?thesis by (simp add: step_stopped)
next
  case True
  show ?thesis
  proof (cases e)
    case (Startup x)
    with True assms(4,5) show ?thesis by (cases x) (simp_all add: step_def)
  next
    case (SocketConnect i)
    with True assms(6) show ?thesis by (simp add: step_def)
  next
    case (SocketDisconnect i)
    with True assms(1) show ?thesis by (simp add: step_def)
  next
    case (Recv i m)
    with True assms(3) show ?thesis by (simp add: step_def)
  next
    case (Reply t r)
    show ?thesis
    proof (cases "pool w t")
      case None
      with True Reply assms(1) show ?thesis by (simp add: step_def)
    next
      case (Some k)
      with True Reply assms(2) show ?thesis by (simp add: step_def)
    qed
  next
    case (Raised h ev)
    with True assms(7) show ?thesis by (simp add: step_def)
  qed
qed

lemmas msgs = dispatch_def handleStartPublish_def handleSdpOffer_def handleIceCandidate_def
  handleDebugDot_def Let_def

subsection \<open>The publisher state\<close>

lemma inv_pub_resume: "inv_pub w \<Longrightarrow> pool w t = Some k \<Longrightarrow> inv_pub (resume t k r w)"
  by (cases k; cases r)
     (auto simp: inv_pub_def prims drain_eq Let_def split: option.splits list.splits)

lemma inv_pub_step:
  assumes "inv_pub w"
  shows "inv_pub (step w e)"
proof (rule step_preserves [where P = inv_pub], goal_cases)
  case (3 i m)
  with assms show ?case
    by (cases m) (auto simp: inv_pub_def prims msgs split: option.splits)
next
  case (2 t k r)
  with assms show ?case by (simp add: inv_pub_resume)
qed (use assms in \<open>auto simp: inv_pub_def prims\<close>)

lemma inv_pub_init: "inv_pub init"
  by (simp add: inv_pub_def init_def)

lemma pipeline_resume: "pipeline w = Some p \<Longrightarrow> \<exists>q. pipeline (resume t k r w) = Some q"
  by (cases k; cases r) (auto simp: prims drain_eq Let_def split: option.splits list.splits)

lemma pipeline_step:
  assumes "pipeline w \<noteq> None"
  shows "pipeline (step w e) \<noteq> None"
proof (rule step_preserves [where P = "\<lambda>w. pipeline w \<noteq> None"], goal_cases)
  case (3 i m)
  with assms show ?case
    by (cases m) (auto simp: prims msgs split: option.splits)
qed (use assms in \<open>auto simp: prims dest: pipeline_resume\<close>)

lemma playerEndpoint_resume:
  "playerEndpoint w = Some p \<Longrightarrow> \<exists>q. playerEndpoint (resume t k r w) = Some q"
  by (cases k; cases r) (auto simp: prims drain_eq Let_def split: option.splits list.splits)

lemma playerEndpoint_step:
  assumes "playerEndpoint w \<noteq> None"
  shows "playerEndpoint (step w e) \<noteq> None"
proof (rule step_preserves [where P = "\<lambda>w. playerEndpoint w \<noteq> None"], goal_cases)
  case (3 i m)
  with assms show ?case
    by (cases m) (auto simp: prims msgs split: option.splits)
qed (use assms in \<open>auto simp: prims dest: playerEndpoint_resume\<close>)

subsection \<open>Tasks and Sessions\<close>

lemma inv_pool_resume: "inv_pool w \<Longrightarrow> pool w t = Some k \<Longrightarrow> inv_pool (resume t k r w)"
  by (cases k; cases r)
     (auto simp: inv_pool_def prims drain_eq Let_def less_Suc_eq
           split: option.splits list.splits if_splits)

lemma inv_pool_step:
  assumes "inv_pool w"
  shows "inv_pool (step w e)"
proof (rule step_preserves [where P = inv_pool], goal_cases)
  case (2 t k r)
  with assms show ?case by (simp add: inv_pool_resume)
next
  case (3 i m)
  with assms show ?case
    by (cases m) (auto simp: inv_pool_def prims msgs less_Suc_eq split: option.splits if_splits)
qed (use assms in \<open>auto simp: inv_pool_def prims\<close>)

lemma inv_pool_init: "inv_pool init"
  by (simp add: inv_pool_def init_def)

text \<open>What a resumed task leaves alone.\<close>

lemma resume_sessions_other:
  "offer_sid k \<noteq> Some j \<Longrightarrow> sessions (resume t k r w) j = sessions w j"
  by (cases k; cases r)
     (auto simp: prims drain_eq Let_def split: option.splits list.splits)

lemma resume_pool_other:
  "t' \<noteq> t \<Longrightarrow> pool (resume t k r w) t' = Some k' \<Longrightarrow> offer_sid k' = Some j \<Longrightarrow>
     pool w t' = Some k'"
  by (cases k; cases r)
     (auto simp: prims drain_eq Let_def split: option.splits list.splits if_splits)

lemma resume_pool_old:
  "t' \<noteq> t \<Longrightarrow> t' < next_tid w \<Longrightarrow> pool (resume t k r w) t' = pool w t'"
  by (cases k; cases r)
     (auto simp: prims drain_eq Let_def split: option.splits list.splits if_splits)

lemma resume_pool_self:
  assumes "pool w t = Some k" and "t < next_tid w"
    and "pool (resume t k r w) t = Some k'" and "offer_sid k' = Some j"
    and "\<And>i. offer_sid k = Some i \<Longrightarrow> \<exists>s. sessions w i = Some s \<and> stage_ok k s"
  shows "offer_sid k = Some j \<and> (\<exists>s'. sessions (resume t k r w) j = Some s' \<and> stage_ok k' s')"
proof -
  have j: "offer_sid k = Some j"
    using assms(1-4)
    by (cases k; cases r)
       (auto simp: prims drain_eq Let_def split: option.splits list.splits if_splits)
  with assms(5) obtain s where "sessions w j = Some s" "stage_ok k s"
    by blast
  with j assms(1-4) show ?thesis
    by (cases k; cases r)
       (auto simp: prims drain_eq Let_def split: option.splits list.splits if_splits)
qed

lemma resume_session_kept:
  "sessions w j = Some s \<Longrightarrow> \<exists>s'. sessions (resume t k r w) j = Some s'"
  by (cases k; cases r)
     (auto simp: prims drain_eq Let_def split: option.splits list.splits if_splits)

text \<open>What a new message leaves alone.\<close>

lemma dispatch_sessions_other:
  "j \<noteq> i \<Longrightarrow> sessions (dispatch t i m w) j = sessions w j"
  by (cases m) (auto simp: prims msgs split: option.splits)

lemma dispatch_pool_other:
  "t' \<noteq> t \<Longrightarrow> pool (dispatch t i m w) t' = pool w t'"
  by (cases m) (auto simp: prims msgs split: option.splits)

lemma dispatch_pool_self:
  "pool (dispatch t i m w) t = Some k' \<Longrightarrow> offer_sid k' = Some j \<Longrightarrow> pool w t = None \<Longrightarrow>
     j = i \<and> sessions w i = None \<and> (\<exists>s'. sessions (dispatch t i m w) i = Some s' \<and> stage_ok k' s')"
  by (cases m) (auto simp: prims msgs split: option.splits if_splits)

lemma dispatch_session_kept:
  "sessions w j = Some s \<Longrightarrow>
     \<exists>s'. sessions (dispatch t i m w) j = Some s' \<and> webrtcEndpoint s' = webrtcEndpoint s"
  by (cases m) (auto simp: prims msgs split: option.splits if_splits)

lemma inv_offer_resume:
  assumes I: "inv_offer w" and B: "inv_pool w" and P: "pool w t = Some k"
  shows "inv_offer (resume t k r w)"
proof -
  let ?w = "resume t k r w"
  from B P have lt: "t < next_tid w"
    by (simp add: inv_pool_def)
  have sess: "\<And>u h i. pool w u = Some h \<Longrightarrow> offer_sid h = Some i \<Longrightarrow>
      \<exists>s. sessions w i = Some s \<and> stage_ok h s"
    using I unfolding inv_offer_def by blast
  have uniq: "\<And>u u' h h' i. pool w u = Some h \<Longrightarrow> pool w u' = Some h' \<Longrightarrow>
      offer_sid h = Some i \<Longrightarrow> offer_sid h' = Some i \<Longrightarrow> u = u'"
    using I unfolding inv_offer_def by blast
  have own: "offer_sid k = Some i" if "pool ?w t = Some h" "offer_sid h = Some i" for h i
    using resume_pool_self [OF P lt that sess [OF P]] by simp
  have old: "pool w u = Some h \<and> offer_sid k \<noteq> Some i"
    if "u \<noteq> t" "pool ?w u = Some h" "offer_sid h = Some i" for u h i
  proof -
    from resume_pool_other [OF that] have "pool w u = Some h" .
    with uniq [OF this P that(3)] that(1) show ?thesis by blast
  qed
  show ?thesis
    unfolding inv_offer_def
  proof (intro conjI allI impI)
    fix u h i
    assume a: "pool ?w u = Some h \<and> offer_sid h = Some i"
    show "\<exists>s. sessions ?w i = Some s \<and> stage_ok h s"
    proof (cases "u = t")
      case True
      with a resume_pool_self [OF P lt _ _ sess [OF P]] show ?thesis by blast
    next
      case False
      with a old have "pool w u = Some h" "offer_sid k \<noteq> Some i" by blast+
      with a sess resume_sessions_other [of k i t r w] show ?thesis by simp
    qed
  next
    fix u u' h h' i
    assume a: "pool ?w u = Some h \<and> pool ?w u' = Some h' \<and>
      offer_sid h = Some i \<and> offer_sid h' = Some i"
    show "u = u'"
    proof (cases "u = t"; cases "u' = t")
      assume "u \<noteq> t" "u' \<noteq> t"
      with a old show ?thesis using uniq by blast
    next
      assume "u = t" "u' \<noteq> t"
      with a own old show ?thesis by blast
    next
      assume "u \<noteq> t" "u' = t"
      with a own old show ?thesis by blast
    qed simp
  qed
qed

lemma inv_offer_dispatch:
  assumes I: "inv_offer w" and B: "inv_pool w"
  shows "inv_offer (dispatch (next_tid w) i m (w\<lparr>next_tid := Suc (next_tid w)\<rparr>))"
proof -
  let ?t = "next_tid w"
  let ?v = "w\<lparr>next_tid := Suc (next_tid w)\<rparr>"
  let ?w = "dispatch ?t i m ?v"
  from B have free: "pool ?v ?t = None"
    by (cases "pool w ?t") (auto simp: inv_pool_def)
  have sess: "\<And>u h i. pool w u = Some h \<Longrightarrow> offer_sid h = Some i \<Longrightarrow>
      \<exists>s. sessions w i = Some s \<and> stage_ok h s"
    using I unfolding inv_offer_def by blast
  have uniq: "\<And>u u' h h' i. pool w u = Some h \<Longrightarrow> pool w u' = Some h' \<Longrightarrow>
      offer_sid h = Some i \<Longrightarrow> offer_sid h' = Some i \<Longrightarrow> u = u'"
    using I unfolding inv_offer_def by blast
  have own: "j = i \<and> sessions w i = None \<and> (\<exists>s'. sessions ?w i = Some s' \<and> stage_ok h s')"
    if "pool ?w ?t = Some h" "offer_sid h = Some j" for h j
    using dispatch_pool_self [OF that free] by simp
  have old: "pool w u = Some h" if "u \<noteq> ?t" "pool ?w u = Some h" for u h
    using that dispatch_pool_other [of u ?t i m ?v] by simp
  have stage: "\<exists>s'. sessions ?w j = Some s' \<and> stage_ok h s'"
    if "sessions w j = Some s" "stage_ok h s" for j s h
  proof -
    from that(1) dispatch_session_kept [of ?v j s ?t i m]
    obtain s' where "sessions ?w j = Some s'" "webrtcEndpoint s' = webrtcEndpoint s"
      by auto
    with that(2) show ?thesis by (cases h) auto
  qed
  show ?thesis
    unfolding inv_offer_def
  proof (intro conjI allI impI)
    fix u h j
    assume a: "pool ?w u = Some h \<and> offer_sid h = Some j"
    show "\<exists>s. sessions ?w j = Some s \<and> stage_ok h s"
    proof (cases "u = ?t")
      case True
      with a own show ?thesis by blast
    next
      case False
      with a old have "pool w u = Some h" by blast
      with a sess obtain s where "sessions w j = Some s" "stage_ok h s" by blast
      then show ?thesis by (rule stage)
    qed
  next
    fix u u' h h' j
    assume a: "pool ?w u = Some h \<and> pool ?w u' = Some h' \<and>
      offer_sid h = Some j \<and> offer_sid h' = Some j"
    show "u = u'"
    proof (cases "u = ?t"; cases "u' = ?t")
      assume "u \<noteq> ?t" "u' \<noteq> ?t"
      with a old show ?thesis using uniq by blast
    next
      assume u: "u = ?t" "u' \<noteq> ?t"
      with a own have "sessions w j = None" by blast
      moreover from u a old sess have "sessions w j \<noteq> None" by blast
      ultimately show ?thesis by simp
    next
      assume u: "u \<noteq> ?t" "u' = ?t"
      with a own have "sessions w j = None" by blast
      moreover from u a old sess have "sessions w j \<noteq> None" by blast
      ultimately show ?thesis by simp
    qed simp
  qed
qed

lemma inv_offer_step:
  assumes "inv_offer w" and "inv_pool w"
  shows "inv_offer (step w e)"
proof (rule step_preserves [where P = inv_offer], goal_cases)
  case (2 t k r)
  with assms show ?case by (simp add: inv_offer_resume)
next
  case (3 i m)
  with assms show ?case by (simp add: inv_offer_dispatch)
qed (use assms in \<open>auto simp: inv_offer_def prims\<close>)

lemma inv_offer_init: "inv_offer init"
  by (simp add: inv_offer_def init_def)

text \<open>The structural invariants hold in every state the server reaches.\<close>

lemma inv_run:
  assumes "inv_pool w" and "inv_offer w"
  shows "inv_pool (run w es) \<and> inv_offer (run w es)"
  using assms by (induction es arbitrary: w) (simp_all add: inv_pool_step inv_offer_step)

lemma inv_reach: "inv_pool (run init es) \<and> inv_offer (run init es)"
  by (rule inv_run [OF inv_pool_init inv_offer_init])

subsection \<open>Failures of the backend\<close>

lemma inv_safe_resume:
  assumes "inv_safe w" and "inv_offer w" and "pool w t = Some k"
  shows "inv_safe (resume t k r w)"
proof -
  from assms(2,3) have "\<And>i. offer_sid k = Some i \<Longrightarrow> \<exists>s. sessions w i = Some s \<and> stage_ok k s"
    unfolding inv_offer_def by blast
  moreover from assms(1,3) have "\<not> is_SP0 k"
    by (auto simp: inv_safe_def)
  ultimately show ?thesis using assms(1,3)
    by (cases k; cases r)
       (auto simp: inv_safe_def prims drain_eq Let_def split: option.splits list.splits if_splits)
qed

lemma inv_safe_step:
  assumes "inv_safe w" and "inv_offer w"
  shows "inv_safe (step w e)"
proof (rule step_preserves [where P = inv_safe], goal_cases)
  case (2 t k r)
  with assms show ?case by (simp add: inv_safe_resume)
next
  case (3 i m)
  with assms show ?case
    by (cases m) (auto simp: inv_safe_def prims msgs split: option.splits if_splits)
qed (use assms in \<open>auto simp: inv_safe_def prims\<close>)

lemma inv_safe_init: "inv_safe init"
  by (simp add: inv_safe_def init_def)

lemma inv_safe_run:
  assumes "inv_safe w" and "inv_pool w" and "inv_offer w"
  shows "inv_safe (run w es)"
  using assms
  by (induction es arbitrary: w) (simp_all add: inv_pool_step inv_offer_step inv_safe_step)

lemma exit_needs_startup_error:
  "status w = Running \<Longrightarrow> status (run w es) \<noteq> Running \<Longrightarrow> inv_safe w \<Longrightarrow> inv_offer w \<Longrightarrow> inv_pool w
    \<Longrightarrow> \<exists>e \<in> set es. is_startup_error e"
proof (induction es arbitrary: w)
  case Nil
  then show ?case by simp
next
  case (Cons e es)
  show ?case
  proof (cases "status (step w e) = Running")
    case True
    with Cons.IH [of "step w e"] Cons.prems show ?thesis
      by (simp add: inv_pool_step inv_offer_step inv_safe_step)
  next
    case False
    have "is_startup_error e"
    proof (rule ccontr)
      assume n: "\<not> is_startup_error e"
      have "status (step w e) = Running"
      proof (cases e)
        case (Startup x)
        with n Cons.prems(1) show ?thesis by (cases x) (simp_all add: step_def prims)
      next
        case (Recv i m)
        with Cons.prems(1) show ?thesis
          by (cases m) (auto simp: step_def prims msgs split: option.splits)
      next
        case (Reply t r)
        show ?thesis
        proof (cases "pool w t")
          case None
          with Reply Cons.prems(1) show ?thesis by (simp add: step_def)
        next
          case (Some k)
          from inv_safe_resume [OF Cons.prems(3,4) Some, of r]
          have "status (resume t k r w) = Running \<or> status (resume t k r w) = Exited 1"
            by (simp add: inv_safe_def)
          moreover have "status (resume t k r w) = Running \<or> status (resume t k r w) = Hung"
            using Cons.prems(1)
            by (cases k; cases r)
               (auto simp: prims drain_eq Let_def split: option.splits list.splits)
          ultimately show ?thesis using Some Reply Cons.prems(1) by (auto simp: step_def)
        qed
      qed (use Cons.prems(1) in \<open>simp_all add: step_def prims\<close>)
      with False show False by simp
    qed
    then show ?thesis by simp
  qed
qed





subsection \<open>The registry of Sessions\<close>

lemma session_kept_step:
  assumes "sessions w j = Some s"
  shows "\<exists>s'. sessions (step w e) j = Some s'"
proof (rule step_preserves [where P = "\<lambda>w. \<exists>s'. sessions w j = Some s'"], goal_cases)
  case (2 t k r)
  from assms show ?case by (rule resume_session_kept)
next
  case (3 i m)
  from dispatch_session_kept [of "w\<lparr>next_tid := Suc (next_tid w)\<rparr>" j s "next_tid w" i m]
    assms
  show ?case by auto
qed (use assms in \<open>auto simp: prims\<close>)

lemma session_kept_run: "sessions w j \<noteq> None \<Longrightarrow> sessions (run w es) j \<noteq> None"
proof (induction es arbitrary: w)
  case (Cons e es)
  from Cons.prems obtain s where "sessions w j = Some s" by auto
  from session_kept_step [OF this, of e] Cons.IH [of "step w e"] show ?case by auto
qed simp

lemma resume_created: "sessionsCreated j (resume t k r w) = sessionsCreated j w"
  by (cases k; cases r)
     (auto simp: sessionsCreated_def prims drain_eq Let_def split: option.splits list.splits)

lemma inv_reg_step:
  assumes "inv_reg w"
  shows "inv_reg (step w e)"
proof (rule step_preserves [where P = inv_reg], goal_cases)
  case (2 t k r)
  show ?case
    unfolding inv_reg_def
  proof (intro allI conjI impI)
    fix i
    from assms show "sessionsCreated i (resume t k r w) \<le> 1"
      by (simp add: resume_created inv_reg_def)
    assume "sessions (resume t k r w) i = None"
    with resume_session_kept [of w i _ t k r] have "sessions w i = None"
      by (cases "sessions w i") auto
    with assms show "sessionsCreated i (resume t k r w) = 0"
      by (simp add: resume_created inv_reg_def)
  qed
next
  case (3 i m)
  from assms have "\<And>j. sessionsCreated j w \<le> 1"
    and "\<And>j. sessions w j = None \<Longrightarrow> sessionsCreated j w = 0"
    by (simp_all add: inv_reg_def)
  then show ?case
    by (cases m)
       (auto simp: inv_reg_def sessionsCreated_def prims msgs split: option.splits if_splits)
qed (use assms in \<open>auto simp: inv_reg_def sessionsCreated_def prims\<close>)

lemma inv_reg_init: "inv_reg init"
  by (simp add: inv_reg_def sessionsCreated_def init_def)

text \<open>An offer on a socket that has a Session: lines 204-206.\<close>

lemma duplicate_offer:
  "status w = Running \<Longrightarrow> sessions w i \<noteq> None \<Longrightarrow>
     step w (Recv i (CLIENT_SDP_OFFER sdpOffer)) =
       console WARN ''Skip adding session, already exists:'' (w\<lparr>next_tid := Suc (next_tid w)\<rparr>)"
  by (auto simp: step_def msgs)

text \<open>
  C3. Under every interleaving \<^verbatim>\<open>global.sessions.set\<close> runs at most once for one
  socket identity; and an offer on a socket whose Session is stored does nothing but warn:
  the state it leaves differs from the one it found by that record and by the counter of
  tasks, so that no call reaches the backend and nothing is emitted.
\<close>

theorem C3_one_session_per_socket:
  "sessionsCreated i (run init es) \<le> 1 \<and>
   (status w = Running \<and> sessions w i \<noteq> None \<longrightarrow>
      step w (Recv i (CLIENT_SDP_OFFER sdpOffer)) =
        w\<lparr>next_tid := Suc (next_tid w),
          trace := trace w @ [Console WARN ''Skip adding session, already exists:'']\<rparr>)"
proof -
  have "inv_reg (run init es)"
    by (rule run_invariant [OF inv_reg_init inv_reg_step])
  then show ?thesis
    by (auto simp: inv_reg_def duplicate_offer prims)
qed

theorem C3_one_session_per_socket_witness:
  "status (run init [Recv ''X'' (CLIENT_SDP_OFFER ''o'')]) = Running \<and>
   sessions (run init [Recv ''X'' (CLIENT_SDP_OFFER ''o'')]) ''X'' \<noteq> None \<and>
   trace (run init [Recv ''X'' (CLIENT_SDP_OFFER ''o''), Recv ''X'' (CLIENT_SDP_OFFER ''p'')]) =
     [SessionsSet ''X'', Console ERROR ''Promise ERROR:'',
      Console WARN ''Skip adding session, already exists:''] \<and>
   sessionsCreated ''X''
     (run init [Recv ''X'' (CLIENT_SDP_OFFER ''o''), Recv ''X'' (CLIENT_SDP_OFFER ''p'')]) = 1"
proof -
  let ?w = "run init [Recv ''X'' (CLIENT_SDP_OFFER ''o'')]"
  have h: "status ?w = Running \<and> sessions ?w ''X'' \<noteq> None"
    by (simp add: handlers init_def prims)
  have t: "trace ?w = [SessionsSet ''X'', Console ERROR ''Promise ERROR:'']"
    by (simp add: handlers init_def prims)
  from C3_one_session_per_socket [of "''X''" "[]" ?w "''p''"] h
  have "step ?w (Recv ''X'' (CLIENT_SDP_OFFER ''p'')) =
      ?w\<lparr>next_tid := Suc (next_tid ?w),
          trace := trace ?w @ [Console WARN ''Skip adding session, already exists:'']\<rparr>"
    by blast
  then have "trace (step ?w (Recv ''X'' (CLIENT_SDP_OFFER ''p''))) =
      trace ?w @ [Console WARN ''Skip adding session, already exists:'']"
    by simp
  with t h show ?thesis
    by (simp add: sessionsCreated_def)
qed

text \<open>
  C7, as the code has it. The \<^verbatim>\<open>connect\<close> listener registers no listener for the end
  of a connection, and no line deletes from \<^verbatim>\<open>global.sessions\<close>: a socket that
  disconnects and connects again finds the registry as it was, and a Session once stored
  stays stored whatever happens.
\<close>

theorem C7_sessions_are_never_removed:
  "step w (SocketDisconnect i) = w \<and>
   sessions (run w [SocketDisconnect i, SocketConnect i]) = sessions w \<and>
   (sessions w i \<noteq> None \<longrightarrow> sessions (run w es) i \<noteq> None)"
  by (auto simp: step_def prims session_kept_run simp del: not_None_eq)

theorem C7_sessions_are_never_removed_witness:
  "sessions (run init [SocketConnect ''X'', Recv ''X'' (CLIENT_SDP_OFFER ''o'')]) ''X'' \<noteq> None \<and>
   sessions (run (run init [SocketConnect ''X'', Recv ''X'' (CLIENT_SDP_OFFER ''o'')])
      [SocketDisconnect ''X'', SocketConnect ''X'']) ''X'' \<noteq> None"
proof -
  let ?w = "run init [SocketConnect ''X'', Recv ''X'' (CLIENT_SDP_OFFER ''o'')]"
  have h: "sessions ?w ''X'' \<noteq> None"
    by (simp add: handlers init_def prims)
  from C7_sessions_are_never_removed [of ?w "''X''" "[SocketDisconnect ''X'', SocketConnect ''X'']"] h
  have "sessions (run ?w [SocketDisconnect ''X'', SocketConnect ''X'']) ''X'' \<noteq> None"
    by blast
  with h show ?thesis
    by blast
qed

text \<open>
  C7 as stated fails. Socket \<open>X\<close> sends an offer before any pipeline exists and one
  candidate, then disconnects; a new connection with the same identity finds the old
  Session and its queue, its candidate joins the old one, and its offer is skipped.
\<close>

theorem C7_counterexample:
  "sessions (run init [SocketConnect ''X'', Recv ''X'' (CLIENT_SDP_OFFER ''o''),
      Recv ''X'' (CLIENT_ICE_CANDIDATE ''c1''), SocketDisconnect ''X'', SocketConnect ''X''])
     ''X'' = Some \<lparr>webrtcEndpoint = None, pendingCandidates = [''c1'']\<rparr> \<and>
   sessions (run init [SocketConnect ''X'', Recv ''X'' (CLIENT_SDP_OFFER ''o''),
      Recv ''X'' (CLIENT_ICE_CANDIDATE ''c1''), SocketDisconnect ''X'', SocketConnect ''X'',
      Recv ''X'' (CLIENT_ICE_CANDIDATE ''c2''), Recv ''X'' (CLIENT_SDP_OFFER ''p'')])
     ''X'' = Some \<lparr>webrtcEndpoint = None, pendingCandidates = [''c1'', ''c2'']\<rparr> \<and>
   sessionsCreated ''X'' (run init [SocketConnect ''X'', Recv ''X'' (CLIENT_SDP_OFFER ''o''),
      Recv ''X'' (CLIENT_ICE_CANDIDATE ''c1''), SocketDisconnect ''X'', SocketConnect ''X'',
      Recv ''X'' (CLIENT_ICE_CANDIDATE ''c2''), Recv ''X'' (CLIENT_SDP_OFFER ''p'')]) = 1"
  by (simp add: handlers init_def prims sessionsCreated_def)

subsection \<open>Publish requests\<close>





subsection \<open>The two DOT files\<close>




subsection \<open>Answers\<close>

lemma resume_answers_other:
  "offer_sid k \<noteq> Some j \<Longrightarrow> answers j (resume t k r w) = answers j w"
  by (cases k; cases r)
     (auto simp: answers_def prims drain_eq Let_def split: option.splits list.splits)

lemma dispatch_answers: "answers j (dispatch t i m w) = answers j w"
  by (cases m) (auto simp: answers_def prims msgs split: option.splits)

lemma resume_pool_self_sid:
  "pool w t = Some k \<Longrightarrow> pool (resume t k r w) t = Some k' \<Longrightarrow> offer_sid k' = Some j \<Longrightarrow>
     offer_sid k = Some j"
  by (cases k; cases r)
     (auto simp: prims drain_eq Let_def split: option.splits list.splits if_splits)

text \<open>A Session with an endpoint keeps it, and its queue can only lose from the front.\<close>

lemma dispatch_endpoint_kept:
  "sessions w j = Some s \<Longrightarrow> webrtcEndpoint s \<noteq> None \<Longrightarrow> sessions (dispatch t i m w) j = Some s"
  by (cases m) (auto simp: prims msgs split: option.splits if_splits)

lemma resume_endpoint_kept:
  assumes "sessions w j = Some s" and "webrtcEndpoint s = Some ep"
    and "offer_sid k = Some j \<Longrightarrow> stage_ok k s"
  shows "\<exists>s'. sessions (resume t k r w) j = Some s' \<and> webrtcEndpoint s' = Some ep \<and>
           (\<exists>n. pendingCandidates s' = drop n (pendingCandidates s))"
proof (cases "offer_sid k = Some j")
  case False
  with assms(1,2) resume_sessions_other [OF False, of t r w] show ?thesis
    by (auto intro: exI [of _ 0])
next
  case True
  with assms show ?thesis
    by (cases k; cases r)
       (auto simp: prims drain_eq Let_def intro: exI [of _ 0] exI [of _ 1]
             split: option.splits list.splits if_splits)
qed

text \<open>What the offer handler of socket \<open>i\<close> does to the answers of \<open>i\<close> when it is resumed.\<close>

lemma resume_answers_self:
  assumes "offer_sid k = Some i" and "sessions w i = Some s" and "stage_ok k s"
  shows "(answers i (resume t k r w) = answers i w) \<or>
         (answers i (resume t k r w) = answers i w + 1 \<and> pool (resume t k r w) t = None \<and>
          (\<exists>s' ep. sessions (resume t k r w) i = Some s' \<and> webrtcEndpoint s' = Some ep \<and>
                    pendingCandidates s' = []))"
  using assms
  by (cases k; cases r)
     (auto simp: answers_def prims drain_eq Let_def split: option.splits list.splits if_splits)

lemma no_offer_resume:
  assumes "inv_offer w" and "pool w t = Some k" and "no_offer w j \<or> (offer_sid k = Some j \<and> pool (resume t k r w) t = None)"
  shows "no_offer (resume t k r w) j"
  unfolding no_offer_def
proof (intro allI impI)
  fix u h
  assume a: "pool (resume t k r w) u = Some h"
  show "offer_sid h \<noteq> Some j"
  proof
    assume h: "offer_sid h = Some j"
    show False
    proof (cases "u = t")
      case True
      from resume_pool_self_sid [OF assms(2) a [unfolded True] h] assms(2,3) a True
      show False by (auto simp: no_offer_def)
    next
      case False
      from resume_pool_other [OF False a h] have old: "pool w u = Some h" .
      from assms(3) show False
      proof
        assume "no_offer w j"
        with old h show False by (auto simp: no_offer_def)
      next
        assume "offer_sid k = Some j \<and> pool (resume t k r w) t = None"
        with assms(1,2) old h have "u = t"
          unfolding inv_offer_def by blast
        with False show False by simp
      qed
    qed
  qed
qed

lemma inv_ans_resume:
  assumes A: "inv_ans w" and I: "inv_offer w" and P: "pool w t = Some k"
  shows "inv_ans (resume t k r w)"
proof -
  let ?w = "resume t k r w"
  have goal: "answers j ?w \<le> 1 \<and> (\<not> no_offer ?w j \<longrightarrow> answers j ?w = 0) \<and>
      (sessions ?w j = None \<longrightarrow> answers j ?w = 0) \<and>
      (0 < answers j ?w \<longrightarrow> (\<exists>s ep. sessions ?w j = Some s \<and> webrtcEndpoint s = Some ep \<and>
          pendingCandidates s = []))" for j
  proof (cases "offer_sid k = Some j")
    case False
    then have ans: "answers j ?w = answers j w"
      by (rule resume_answers_other)
    from False have ses: "sessions ?w j = sessions w j"
      by (rule resume_sessions_other)
    have "no_offer ?w j" if "no_offer w j"
      using no_offer_resume [OF I P] that by blast
    with A ans ses show ?thesis
      unfolding inv_ans_def by metis
  next
    case True
    with I P obtain s where s: "sessions w j = Some s" "stage_ok k s"
      unfolding inv_offer_def by blast
    from True P have "\<not> no_offer w j"
      by (auto simp: no_offer_def)
    with A have zero: "answers j w = 0"
      by (simp add: inv_ans_def)
    from resume_session_kept [OF s(1), of t k r] have kept: "sessions ?w j \<noteq> None"
      by auto
    from resume_answers_self [OF True s, of t r] show ?thesis
    proof
      assume "answers j ?w = answers j w"
      with zero kept show ?thesis by simp
    next
      assume b: "answers j ?w = answers j w + 1 \<and> pool ?w t = None \<and>
        (\<exists>s' ep. sessions ?w j = Some s' \<and> webrtcEndpoint s' = Some ep \<and>
                  pendingCandidates s' = [])"
      with True have "no_offer ?w j"
        using no_offer_resume [OF I P, of j r] by blast
      with b zero show ?thesis by auto
    qed
  qed
  then show ?thesis
    unfolding inv_ans_def by blast
qed

lemma no_offer_dispatch:
  assumes "inv_pool w" and "no_offer w j" and "sessions w j \<noteq> None"
  shows "no_offer (dispatch (next_tid w) i m (w\<lparr>next_tid := Suc (next_tid w)\<rparr>)) j"
  unfolding no_offer_def
proof (intro allI impI)
  let ?t = "next_tid w"
  let ?v = "w\<lparr>next_tid := Suc (next_tid w)\<rparr>"
  fix u h
  assume a: "pool (dispatch ?t i m ?v) u = Some h"
  from assms(1) have free: "pool ?v ?t = None"
    by (cases "pool w ?t") (auto simp: inv_pool_def)
  show "offer_sid h \<noteq> Some j"
  proof
    assume h: "offer_sid h = Some j"
    show False
    proof (cases "u = ?t")
      case True
      from dispatch_pool_self [OF a [unfolded True] h free] assms(3) show False by simp
    next
      case False
      with a dispatch_pool_other [OF False, of i m ?v] assms(2) h show False
        by (auto simp: no_offer_def)
    qed
  qed
qed

lemma inv_ans_dispatch:
  assumes A: "inv_ans w" and B: "inv_pool w"
  shows "inv_ans (dispatch (next_tid w) i m (w\<lparr>next_tid := Suc (next_tid w)\<rparr>))"
proof -
  let ?v = "w\<lparr>next_tid := Suc (next_tid w)\<rparr>"
  let ?w = "dispatch (next_tid w) i m ?v"
  have ans: "answers j ?w = answers j w" for j
    by (simp add: dispatch_answers) (simp add: answers_def)
  have goal: "answers j ?w \<le> 1 \<and> (\<not> no_offer ?w j \<longrightarrow> answers j ?w = 0) \<and>
      (sessions ?w j = None \<longrightarrow> answers j ?w = 0) \<and>
      (0 < answers j ?w \<longrightarrow> (\<exists>s ep. sessions ?w j = Some s \<and> webrtcEndpoint s = Some ep \<and>
          pendingCandidates s = []))" for j
  proof (cases "answers j w = 0")
    case True
    with ans show ?thesis by simp
  next
    case False
    with A obtain s ep where s: "answers j w = 1" "no_offer w j" "sessions w j = Some s"
      "webrtcEndpoint s = Some ep" "pendingCandidates s = []"
      unfolding inv_ans_def
      by (metis One_nat_def le_Suc_eq le_zero_eq neq0_conv)
    from dispatch_endpoint_kept [of ?v j s "next_tid w" i m] s
    have "sessions ?w j = Some s" by simp
    moreover from no_offer_dispatch [OF B s(2), of i m] s(3) have "no_offer ?w j" by simp
    ultimately show ?thesis using s ans by simp
  qed
  then show ?thesis
    unfolding inv_ans_def by blast
qed

lemma inv_ans_step:
  assumes "inv_ans w" and "inv_offer w" and "inv_pool w"
  shows "inv_ans (step w e)"
proof (rule step_preserves [where P = inv_ans], goal_cases)
  case (2 t k r)
  with assms show ?case by (simp add: inv_ans_resume)
next
  case (3 i m)
  with assms show ?case by (simp add: inv_ans_dispatch)
qed (use assms in \<open>auto simp: inv_ans_def no_offer_def answers_def prims\<close>)

lemma inv_ans_init: "inv_ans init"
  by (simp add: inv_ans_def answers_def init_def)

lemma inv_ans_reach: "inv_ans (run init es)"
proof -
  have "inv_pool (run w es) \<and> inv_offer (run w es) \<and> inv_ans (run w es)"
    if "inv_pool w" "inv_offer w" "inv_ans w" for w
    using that
    by (induction es arbitrary: w) (simp_all add: inv_pool_step inv_offer_step inv_ans_step)
  from this [OF inv_pool_init inv_offer_init inv_ans_init] show ?thesis by simp
qed

subsection \<open>A parked offer handler while other events are handled\<close>

lemma calls_by_append: "calls_by t (xs @ ys) = calls_by t xs @ calls_by t ys"
  by (induction t xs rule: calls_by.induct) simp_all

lemma raised_calls [simp]: "calls_by t (trace (raised h ev w)) = calls_by t (trace w)"
  by (auto simp: raised_def prims calls_by_append
           split: option.splits listener.splits backend_event.splits)

lemma resume_calls_other:
  "t \<noteq> u \<Longrightarrow> t < next_tid w \<Longrightarrow> calls_by t (trace (resume u k r w)) = calls_by t (trace w)"
  by (cases k; cases r)
     (auto simp: prims drain_eq Let_def calls_by_append split: option.splits list.splits)

lemma dispatch_calls_other:
  "t \<noteq> u \<Longrightarrow> calls_by t (trace (dispatch u j m w)) = calls_by t (trace w)"
  by (cases m) (auto simp: prims msgs calls_by_append split: option.splits)

lemma dispatch_session_self:
  "sessions w i = Some s \<Longrightarrow>
     sessions (dispatch u j m w) i =
       Some (s\<lparr>pendingCandidates := pendingCandidates s @
                 (if webrtcEndpoint s = None then candidates_on i [Recv j m] else [])\<rparr>)"
  by (cases m) (auto simp: prims msgs split: option.splits)

lemma run_running:
  "status (run w es) = Running \<Longrightarrow> status w = Running"
  using run_stopped [of w es] by (cases "status w = Running") simp_all

lemma step_other:
  assumes B: "inv_pool w" and I: "inv_offer w" and R: "status w = Running"
    and P: "pool w t = Some k" and O: "offer_sid k = Some i" and S: "sessions w i = Some s"
    and E: "\<And>r. e \<noteq> Reply t r"
  shows "pool (step w e) t = Some k \<and>
         calls_by t (trace (step w e)) = calls_by t (trace w) \<and>
         answers i (step w e) = answers i w \<and>
         sessions (step w e) i =
           Some (s\<lparr>pendingCandidates := pendingCandidates s @
                     (if webrtcEndpoint s = None then candidates_on i [e] else [])\<rparr>)"
proof -
  from B P have lt: "t < next_tid w"
    by (simp add: inv_pool_def)
  show ?thesis
  proof (cases e)
    case (Startup x)
    with R P S show ?thesis
      by (cases x) (simp_all add: step_def prims calls_by_append answers_def)
  next
    case (SocketConnect j)
    with R P S show ?thesis
      by (simp add: step_def prims calls_by_append answers_def)
  next
    case (SocketDisconnect j)
    with R P S show ?thesis
      by (simp add: step_def)
  next
    case (Recv j m)
    let ?v = "w\<lparr>next_tid := Suc (next_tid w)\<rparr>"
    from lt have ne: "t \<noteq> next_tid w" by simp
    have "answers i (dispatch (next_tid w) j m ?v) = answers i w"
      by (simp add: dispatch_answers) (simp add: answers_def)
    with Recv R P S ne dispatch_pool_other [OF ne, of j m ?v]
      dispatch_calls_other [OF ne, of j m ?v] dispatch_session_self [of ?v i s "next_tid w" j m]
    show ?thesis
      by (simp add: step_def)
  next
    case (Reply u r)
    with E have ne: "t \<noteq> u" by auto
    show ?thesis
    proof (cases "pool w u")
      case None
      with Reply R P S show ?thesis by (simp add: step_def)
    next
      case (Some h)
      from I P O Some ne have h: "offer_sid h \<noteq> Some i"
        unfolding inv_offer_def by blast
      from Reply R Some have st: "step w e = resume u h r w"
        by (simp add: step_def)
      from resume_pool_old [OF ne lt, of h r] P resume_calls_other [OF ne lt, of h r]
        resume_answers_other [OF h, of u r w] resume_sessions_other [OF h, of u r w] S Reply
      show ?thesis
        unfolding st by simp
    qed
  next
    case (Raised h ev)
    with R P S show ?thesis
      by (simp add: step_def)
  qed
qed

text \<open>A task that is over stays over, and its identifier is not given out again.\<close>

lemma step_finished:
  assumes "inv_pool w" and "pool w t = None" and "t < next_tid w"
  shows "pool (step w e) t = None \<and> t < next_tid (step w e) \<and>
         calls_by t (trace (step w e)) = calls_by t (trace w)"
proof (cases "status w = Running")
  case False
  with assms show ?thesis by (simp add: step_stopped)
next
  case R: True
  show ?thesis
  proof (cases e)
    case (Startup x)
    with R assms show ?thesis
      by (cases x) (simp_all add: step_def prims calls_by_append)
  next
    case (SocketConnect j)
    with R assms show ?thesis
      by (simp add: step_def prims calls_by_append)
  next
    case (SocketDisconnect j)
    with R assms show ?thesis
      by (simp add: step_def)
  next
    case (Recv j m)
    let ?v = "w\<lparr>next_tid := Suc (next_tid w)\<rparr>"
    from assms(3) have ne: "t \<noteq> next_tid w" by simp
    have "next_tid w < next_tid (dispatch (next_tid w) j m ?v)"
      by (cases m) (auto simp: prims msgs split: option.splits)
    with Recv R assms ne dispatch_pool_other [OF ne, of j m ?v]
      dispatch_calls_other [OF ne, of j m ?v]
    show ?thesis
      by (simp add: step_def)
  next
    case (Reply u r)
    show ?thesis
    proof (cases "pool w u")
      case None
      with Reply R assms show ?thesis by (simp add: step_def)
    next
      case (Some h)
      with assms(2) have ne: "t \<noteq> u" by auto
      from Reply R Some have st: "step w e = resume u h r w"
        by (simp add: step_def)
      have "next_tid w \<le> next_tid (resume u h r w)"
        by (cases h; cases r)
           (auto simp: prims drain_eq Let_def split: option.splits list.splits)
      with resume_pool_old [OF ne assms(3), of h r] assms resume_calls_other [OF ne assms(3), of h r]
      show ?thesis
        unfolding st by simp
    qed
  next
    case (Raised h ev)
    with R assms show ?thesis
      by (simp add: step_def)
  qed
qed

lemma replies_to_other: "(\<And>r. e \<noteq> Reply t r) \<Longrightarrow> replies_to t (e # es) = replies_to t es"
  by (cases e) auto

lemma candidates_on_reply [simp]: "candidates_on i (Reply u r # es) = candidates_on i es"
  by simp

lemma candidates_on_single:
  "candidates_on i (e # es) = candidates_on i [e] @ candidates_on i es"
  by (induction i "[e]" rule: candidates_on.induct) auto

lemma finished_run:
  "inv_pool w \<Longrightarrow> pool w t = None \<Longrightarrow> t < next_tid w \<Longrightarrow>
     pool (run w es) t = None \<and> calls_by t (trace (run w es)) = calls_by t (trace w)"
proof (induction es arbitrary: w)
  case (Cons e es)
  from step_finished [OF Cons.prems, of e] Cons.IH [of "step w e"] inv_pool_step [OF Cons.prems(1)]
  show ?case by simp
qed simp

lemma endpoint_kept_step:
  assumes I: "inv_offer w" and S: "sessions w j = Some s" and E: "webrtcEndpoint s = Some ep"
  shows "\<exists>s'. sessions (step w e) j = Some s' \<and> webrtcEndpoint s' = Some ep \<and>
           (\<exists>n. pendingCandidates s' = drop n (pendingCandidates s))"
proof (rule step_preserves [where P = "\<lambda>w. \<exists>s'. sessions w j = Some s' \<and>
    webrtcEndpoint s' = Some ep \<and> (\<exists>n. pendingCandidates s' = drop n (pendingCandidates s))"],
    goal_cases)
  case 1
  from S E show ?case by (auto intro: exI [of _ 0])
next
  case (2 t k r)
  from I 2(2) S have "offer_sid k = Some j \<Longrightarrow> stage_ok k s"
    unfolding inv_offer_def by fastforce
  from resume_endpoint_kept [OF S E this] show ?case by simp
next
  case (3 i m)
  from dispatch_endpoint_kept [of "w\<lparr>next_tid := Suc (next_tid w)\<rparr>" j s "next_tid w" i m] S E
  show ?case by (auto intro: exI [of _ 0])
qed (use S E in \<open>auto simp: prims intro: exI [of _ 0]\<close>)

lemma endpoint_kept_run:
  "inv_pool w \<Longrightarrow> inv_offer w \<Longrightarrow> sessions w j = Some s \<Longrightarrow> webrtcEndpoint s = Some ep \<Longrightarrow>
     \<exists>s'. sessions (run w es) j = Some s' \<and> webrtcEndpoint s' = Some ep \<and>
          (\<exists>n. pendingCandidates s' = drop n (pendingCandidates s))"
proof (induction es arbitrary: w s)
  case Nil
  then show ?case by (auto intro: exI [of _ 0])
next
  case (Cons e es)
  from endpoint_kept_step [OF Cons.prems(2-4), of e]
  obtain s1 n where s1: "sessions (step w e) j = Some s1" "webrtcEndpoint s1 = Some ep"
    "pendingCandidates s1 = drop n (pendingCandidates s)"
    by blast
  from Cons.IH [OF inv_pool_step [OF Cons.prems(1)] inv_offer_step [OF Cons.prems(2,1)] s1(1,2)]
  obtain s2 m where "sessions (run (step w e) es) j = Some s2" "webrtcEndpoint s2 = Some ep"
    "pendingCandidates s2 = drop m (pendingCandidates s1)"
    by blast
  with s1(3) show ?case
    by (auto intro: exI [of _ "m + n"])
qed

lemma answers_stable_step:
  assumes B: "inv_pool w" and I: "inv_offer w" and N: "no_offer w i" and S: "sessions w i \<noteq> None"
  shows "no_offer (step w e) i \<and> answers i (step w e) = answers i w"
proof (rule step_preserves [where P = "\<lambda>v. no_offer v i \<and> answers i v = answers i w"], goal_cases)
  case 1
  from N show ?case by simp
next
  case (2 t k r)
  from N 2(2) have "offer_sid k \<noteq> Some i"
    by (auto simp: no_offer_def)
  from resume_answers_other [OF this] no_offer_resume [OF I 2(2), of i r] N show ?case
    by simp
next
  case (3 j m)
  from no_offer_dispatch [OF B N S, of j m] dispatch_answers [of i "next_tid w" j m] show ?case
    by (simp add: answers_def)
qed (use N in \<open>auto simp: no_offer_def answers_def prims\<close>)

lemma answers_stable_run:
  "inv_pool w \<Longrightarrow> inv_offer w \<Longrightarrow> no_offer w i \<Longrightarrow> sessions w i \<noteq> None \<Longrightarrow>
     no_offer (run w es) i \<and> answers i (run w es) = answers i w"
proof (induction es arbitrary: w)
  case (Cons e es)
  from Cons.prems(4) obtain s where "sessions w i = Some s" by auto
  from session_kept_step [OF this, of e] have "sessions (step w e) i \<noteq> None" by auto
  from Cons.IH [OF inv_pool_step [OF Cons.prems(1)] inv_offer_step [OF Cons.prems(2,1)] _ this]
    answers_stable_step [OF Cons.prems, of e]
  show ?case by simp
qed simp

subsection \<open>The loop over the queue\<close>

lemma drain_step:
  assumes "pool w t = Some (SO_drain i a) \<or> (\<exists>ep'. pool w t = Some (SO_gather i ep' a) \<and> is_resolved r)"
    and "sessions w i = Some s" and "webrtcEndpoint s = Some ep" and "status w = Running"
  shows "(case pendingCandidates s of
            [] \<Rightarrow> pool (step w (Reply t r)) t = None \<and>
                  answers i (step w (Reply t r)) = answers i w + 1 \<and>
                  Emit i (SERVER_SDP_ANSWER a) \<in> set (trace (step w (Reply t r))) \<and>
                  calls_by t (trace (step w (Reply t r))) = calls_by t (trace w) \<and>
                  sessions (step w (Reply t r)) i = Some s
          | c # rest \<Rightarrow> pool (step w (Reply t r)) t = Some (SO_drain i a) \<and>
                  answers i (step w (Reply t r)) = answers i w \<and>
                  calls_by t (trace (step w (Reply t r))) =
                    calls_by t (trace w) @ [AddIceCandidate ep c] \<and>
                  sessions (step w (Reply t r)) i = Some (s\<lparr>pendingCandidates := rest\<rparr>))"
  using assms
  by (cases r)
     (auto simp: step_def drain_eq prims answers_def calls_by_append split: list.splits)

lemma drain_run:
  assumes "inv_pool w" and "inv_offer w" and "status (run w es) = Running"
    and "pool w t = Some (SO_drain i a)" and "sessions w i = Some s"
    and "webrtcEndpoint s = Some ep"
  shows "calls_by t (trace (run w es)) =
           calls_by t (trace w) @
             map (AddIceCandidate ep) (take (length (replies_to t es)) (pendingCandidates s)) \<and>
         (\<exists>s'. sessions (run w es) i = Some s' \<and> webrtcEndpoint s' = Some ep \<and>
               pendingCandidates s' = drop (length (replies_to t es)) (pendingCandidates s)) \<and>
         (length (pendingCandidates s) < length (replies_to t es) \<longrightarrow>
            pool (run w es) t = None \<and> answers i (run w es) = answers i w + 1)"
  using assms
proof (induction es arbitrary: w s)
  case Nil
  then show ?case by simp
next
  case (Cons e es)
  from Cons.prems(3) have R1: "status (step w e) = Running"
    using run_running [of "step w e" es] by simp
  then have R: "status w = Running"
    using step_stopped [of w e] by (cases "status w = Running") simp_all
  note B1 = inv_pool_step [OF Cons.prems(1), of e]
  note I1 = inv_offer_step [OF Cons.prems(2,1), of e]
  from Cons.prems(3) have F: "status (run (step w e) es) = Running" by simp
  from Cons.prems(1,4) have lt: "t < next_tid w"
    by (simp add: inv_pool_def)
  show ?case
  proof (cases "\<exists>r. e = Reply t r")
    case False
    then have E: "\<And>r. e \<noteq> Reply t r" by blast
    from step_other [OF Cons.prems(1,2) R Cons.prems(4) _ Cons.prems(5) E] Cons.prems(6)
    have o: "pool (step w e) t = Some (SO_drain i a)"
      "calls_by t (trace (step w e)) = calls_by t (trace w)"
      "answers i (step w e) = answers i w" "sessions (step w e) i = Some s"
      by simp_all
    from Cons.IH [OF B1 I1 F o(1) o(4) Cons.prems(6)] o(2,3) replies_to_other [OF E, of es]
    show ?thesis by simp
  next
    case True
    then obtain r where e: "e = Reply t r" by blast
    note d = drain_step [OF disjI1 [OF Cons.prems(4)] Cons.prems(5,6) R, of r]
    show ?thesis
    proof (cases "pendingCandidates s")
      case Nil
      with d e have f: "pool (step w e) t = None" "answers i (step w e) = answers i w + 1"
        "calls_by t (trace (step w e)) = calls_by t (trace w)" "sessions (step w e) i = Some s"
        by simp_all
      have lt1: "t < next_tid (step w e)"
        using lt e R Cons.prems(4,5,6) Nil by (cases r) (auto simp: step_def drain_eq prims)
      from finished_run [OF B1 f(1) lt1, of es] f(3)
      have 1: "pool (run (step w e) es) t = None"
        "calls_by t (trace (run (step w e) es)) = calls_by t (trace w)"
        by simp_all
      from endpoint_kept_run [OF B1 I1 f(4) Cons.prems(6), of es] Nil
      have 2: "\<exists>s'. sessions (run (step w e) es) i = Some s' \<and> webrtcEndpoint s' = Some ep \<and>
          pendingCandidates s' = []"
        by auto
      from I1 f(1) have "no_offer (step w e) i"
        using no_offer_resume [OF Cons.prems(2,4), of i r] e R Cons.prems(4)
        by (simp add: step_def)
      from answers_stable_run [OF B1 I1 this, of es] f(2,4)
      have 3: "answers i (run (step w e) es) = answers i w + 1"
        by simp
      from 1 2 3 Nil show ?thesis by simp
    next
      case (Cons c rest)
      with d e have f: "pool (step w e) t = Some (SO_drain i a)"
        "answers i (step w e) = answers i w"
        "calls_by t (trace (step w e)) = calls_by t (trace w) @ [AddIceCandidate ep c]"
        "sessions (step w e) i = Some (s\<lparr>pendingCandidates := rest\<rparr>)"
        by simp_all
      from Cons.IH [OF B1 I1 F f(1) f(4)] Cons.prems(6) f(2,3) Cons e
      show ?thesis by simp
    qed
  qed
qed

subsection \<open>From the offer to the answer\<close>

text \<open>A Session that no offer handler works for gets no answer any more.\<close>

lemma offer_failed:
  assumes "inv_pool w" and "inv_offer w" and "inv_ans w" and "status w = Running"
    and "pool w t = Some k" and "offer_sid k = Some i" and "0 < stage_left k"
  shows "trace (step w (Reply t (Rejected e))) = trace w @ [Console ERROR ''Promise ERROR:''] \<and>
         answers i (run (step w (Reply t (Rejected e))) es) = 0"
proof -
  let ?w = "step w (Reply t (Rejected e))"
  from assms(4,5) have st: "?w = resume t k (Rejected e) w"
    by (simp add: step_def)
  from assms(5,6,7) have c: "resume t k (Rejected e) w = catch t w"
    by (cases k) auto
  from assms(5,6) have "\<not> no_offer w i"
    by (auto simp: no_offer_def)
  with assms(3) have zero: "answers i w = 0"
    by (simp add: inv_ans_def)
  from assms(2,5,6) obtain s where s: "sessions w i = Some s"
    unfolding inv_offer_def by blast
  have "no_offer ?w i"
    using no_offer_resume [OF assms(2,5), of i "Rejected e"] assms(6)
    unfolding st c by (simp add: prims)
  moreover from session_kept_step [OF s] have "sessions ?w i \<noteq> None"
    by auto
  ultimately have "answers i (run ?w es) = answers i ?w"
    using answers_stable_run [OF inv_pool_step [OF assms(1)] inv_offer_step [OF assms(2,1)]]
    by blast
  with zero show ?thesis
    unfolding st c by (simp add: prims answers_def)
qed

lemma offer_without_pipeline:
  assumes "inv_pool w" and "inv_offer w" and "inv_ans w" and "status w = Running"
    and "sessions w i = None" and "pipeline w = None"
  shows "answers i (run (step w (Recv i (CLIENT_SDP_OFFER sdpOffer))) es) = 0"
proof -
  let ?w = "step w (Recv i (CLIENT_SDP_OFFER sdpOffer))"
  from assms(3,5) have zero: "answers i w = 0"
    by (simp add: inv_ans_def)
  from assms(2,5) have "no_offer w i"
    unfolding inv_offer_def no_offer_def by fastforce
  with assms(4,5,6) have "no_offer ?w i" and "sessions ?w i \<noteq> None"
    and "answers i ?w = answers i w"
    by (auto simp: step_def msgs prims no_offer_def answers_def)
  with answers_stable_run [OF inv_pool_step [OF assms(1)] inv_offer_step [OF assms(2,1)],
      where i = i and es = es] zero
  show ?thesis by simp
qed

lemma offer_without_player:
  assumes "inv_pool w" and "inv_offer w" and "inv_ans w" and "status w = Running"
    and "pool w t = Some (SO_endpoint i sdpOffer)" and "playerEndpoint w = None"
  shows "answers i (run (step w (Reply t (Resolved v))) es) = 0"
proof -
  let ?w = "step w (Reply t (Resolved v))"
  from assms(4,5) have st: "?w = resume t (SO_endpoint i sdpOffer) (Resolved v) w"
    by (simp add: step_def)
  from assms(5) have "\<not> no_offer w i"
    by (force simp: no_offer_def)
  with assms(3) have zero: "answers i w = 0"
    by (simp add: inv_ans_def)
  from assms(2,5) obtain s where s: "sessions w i = Some s"
    unfolding inv_offer_def by fastforce
  from assms(6) have "pool ?w t = None" and "answers i ?w = answers i w"
    unfolding st by (simp_all add: prims answers_def Let_def)
  with no_offer_resume [OF assms(2,5), of i "Resolved v"] have "no_offer ?w i"
    unfolding st by simp
  moreover from session_kept_step [OF s] have "sessions ?w i \<noteq> None"
    by auto
  ultimately have "answers i (run ?w es) = answers i ?w"
    using answers_stable_run [OF inv_pool_step [OF assms(1)] inv_offer_step [OF assms(2,1)]]
    by blast
  with zero \<open>answers i ?w = answers i w\<close> show ?thesis
    by simp
qed

subsection \<open>A Session whose offer handler failed early\<close>





subsection \<open>Names of objects and of tasks\<close>





lemma caller_below_mono: "list_all (caller_below n) xs \<Longrightarrow> n \<le> m \<Longrightarrow> list_all (caller_below m) xs"
proof (induction xs)
  case (Cons x xs)
  then show ?case by (cases x) auto
qed simp

lemma inv_trace_resume:
  assumes "inv_trace w" and "inv_pool w" and "pool w t = Some k"
  shows "inv_trace (resume t k r w)"
proof -
  from assms(2,3) have lt: "t < next_tid w"
    by (simp add: inv_pool_def)
  from assms(1) have a: "list_all (caller_below (next_tid w)) (trace w)"
    by (simp add: inv_trace_def)
  from caller_below_mono [OF a, of "Suc (next_tid w)"]
  have b: "list_all (caller_below (Suc (next_tid w))) (trace w)" by simp
  from a b lt show ?thesis
    by (cases k; cases r)
       (auto simp: inv_trace_def prims drain_eq Let_def split: option.splits list.splits)
qed

lemma inv_trace_step:
  assumes "inv_trace w" and "inv_pool w"
  shows "inv_trace (step w e)"
proof (rule step_preserves [where P = inv_trace], goal_cases)
  case (2 t k r)
  with assms show ?case by (simp add: inv_trace_resume)
next
  case (3 i m)
  from assms(1) have a: "list_all (caller_below (next_tid w)) (trace w)"
    by (simp add: inv_trace_def)
  from caller_below_mono [OF a, of "Suc (next_tid w)"]
  have b: "list_all (caller_below (Suc (next_tid w))) (trace w)" by simp
  then show ?case
    by (cases m) (auto simp: inv_trace_def prims msgs split: option.splits if_splits)
next
  case (7 h ev)
  from assms(1) show ?case
    by (auto simp: inv_trace_def raised_def prims
             split: option.splits listener.splits backend_event.splits)
qed (use assms in \<open>auto simp: inv_trace_def prims\<close>)

lemma inv_trace_init: "inv_trace init"
  by (simp add: inv_trace_def init_def)

lemma inv_trace_reach: "inv_trace (run init es)"
proof -
  have "inv_pool (run w es) \<and> inv_trace (run w es)" if "inv_pool w" "inv_trace w" for w
    using that by (induction es arbitrary: w) (simp_all add: inv_pool_step inv_trace_step)
  from this [OF inv_pool_init inv_trace_init] show ?thesis by simp
qed

lemma calls_by_none: "list_all (caller_below n) xs \<Longrightarrow> n \<le> t \<Longrightarrow> calls_by t xs = []"
proof (induction xs)
  case (Cons x xs)
  then show ?case by (cases x) auto
qed simp

text \<open>Without a failed start of the client, a running server goes on running.\<close>

lemma inv_safe_reach: "inv_safe (run init es)"
  by (rule inv_safe_run [OF inv_safe_init inv_pool_init inv_offer_init])

lemma stays_running:
  assumes "inv_safe w" and "inv_offer w" and "inv_pool w" and "status w = Running"
    and "no_startup_error es"
  shows "status (run w es) = Running"
proof (rule ccontr)
  assume "status (run w es) \<noteq> Running"
  from exit_needs_startup_error [OF assms(4) this assms(1,2,3)] assms(5) show False
    by (auto simp: no_startup_error_def list_all_iff)
qed

subsection \<open>Pipeline and source endpoint\<close>

lemma publish_rejected:
  "status w = Running \<Longrightarrow> pool w t = Some k \<Longrightarrow> publishing k \<Longrightarrow>
     step w (Reply t (Rejected e)) =
       w\<lparr>trace := trace w @ [Console ERROR ''Promise ERROR:''], pool := (pool w)(t := None)\<rparr>"
  by (cases k) (simp_all add: step_def prims)

lemma pipeline_resolved:
  "status w = Running \<Longrightarrow> pool w t = Some SP_pipeline \<Longrightarrow>
     step w (Reply t (Resolved v)) =
       w\<lparr>pipeline := Some (next_obj w), next_obj := Suc (next_obj w),
         trace := trace w @ [Console LOG ''Kurento pipeline created'',
                             Call t (CreatePlayerEndpoint (next_obj w))],
         pool := (pool w)(t \<mapsto> SP_player (next_obj w))\<rparr>"
  by (simp add: step_def prims Let_def)


text \<open>
  C4, as the code has it. In every state the server reaches, under every interleaving, a
  source endpoint implies a pipeline, and neither of the two is ever reset to absent. The
  converse fails. The pipeline is stored when its creation resolves, in the same turn in
  which the PlayerEndpoint is requested, and the source endpoint is left as it was. And a
  rejected step of \<^verbatim>\<open>handleStartPublish\<close>, whichever of the three, adds one
  \<^verbatim>\<open>console.error\<close>, ends the handler and changes nothing else: a pipeline that was
  stored stays stored.
\<close>

theorem C4_endpoint_implies_pipeline:
  "(playerEndpoint (run init es) \<noteq> None \<longrightarrow> pipeline (run init es) \<noteq> None) \<and>
   (pipeline w \<noteq> None \<longrightarrow> pipeline (run w es) \<noteq> None) \<and>
   (playerEndpoint w \<noteq> None \<longrightarrow> playerEndpoint (run w es) \<noteq> None) \<and>
   (status w = Running \<and> pool w t = Some SP_pipeline \<longrightarrow>
      pipeline (step w (Reply t (Resolved v))) = Some (next_obj w) \<and>
      playerEndpoint (step w (Reply t (Resolved v))) = playerEndpoint w \<and>
      pool (step w (Reply t (Resolved v))) t = Some (SP_player (next_obj w)) \<and>
      trace (step w (Reply t (Resolved v))) =
        trace w @ [Console LOG ''Kurento pipeline created'',
                   Call t (CreatePlayerEndpoint (next_obj w))]) \<and>
   (status w = Running \<and> pool w t = Some k \<and> publishing k \<longrightarrow>
      step w (Reply t (Rejected e)) =
        w\<lparr>trace := trace w @ [Console ERROR ''Promise ERROR:''], pool := (pool w)(t := None)\<rparr>)"
proof -
  have "inv_pub (run init es)"
    by (rule run_invariant [OF inv_pub_init inv_pub_step])
  then have 1: "pipeline (run init es) \<noteq> None" if "playerEndpoint (run init es) \<noteq> None"
    using that by (simp add: inv_pub_def)
  have 2: "pipeline (run w es) \<noteq> None" if "pipeline w \<noteq> None"
    using that by (rule run_invariant) (rule pipeline_step)
  have 3: "playerEndpoint (run w es) \<noteq> None" if "playerEndpoint w \<noteq> None"
    using that by (rule run_invariant) (rule playerEndpoint_step)
  have 4: "pipeline (step w (Reply t (Resolved v))) = Some (next_obj w) \<and>
      playerEndpoint (step w (Reply t (Resolved v))) = playerEndpoint w \<and>
      pool (step w (Reply t (Resolved v))) t = Some (SP_player (next_obj w)) \<and>
      trace (step w (Reply t (Resolved v))) =
        trace w @ [Console LOG ''Kurento pipeline created'',
                   Call t (CreatePlayerEndpoint (next_obj w))]"
    if "status w = Running" "pool w t = Some SP_pipeline"
    by (simp add: pipeline_resolved [OF that])
  have 5: "step w (Reply t (Rejected e)) =
        w\<lparr>trace := trace w @ [Console ERROR ''Promise ERROR:''], pool := (pool w)(t := None)\<rparr>"
    if "status w = Running" "pool w t = Some k" "publishing k"
    using that by (rule publish_rejected)
  show ?thesis
    by (intro conjI; intro impI, (elim conjE)?, rule 1 2 3 4 5, assumption+)
qed

theorem C4_endpoint_implies_pipeline_witness:
  "playerEndpoint (run init [Startup None, Recv ''A'' CLIENT_START_PUBLISH,
      Reply 0 (Resolved ''''), Reply 0 (Resolved '''')]) = Some 1 \<and>
   pipeline (run init [Startup None, Recv ''A'' CLIENT_START_PUBLISH,
      Reply 0 (Resolved ''''), Reply 0 (Resolved '''')]) \<noteq> None \<and>
   pool (run init [Startup None, Recv ''A'' CLIENT_START_PUBLISH]) 0 = Some SP_pipeline \<and>
   pipeline (run init [Startup None, Recv ''A'' CLIENT_START_PUBLISH,
      Reply 0 (Resolved '''')]) = Some 0 \<and>
   playerEndpoint (run init [Startup None, Recv ''A'' CLIENT_START_PUBLISH,
      Reply 0 (Resolved '''')]) = None \<and>
   pool (run init [Startup None, Recv ''A'' CLIENT_START_PUBLISH,
      Reply 0 (Resolved '''')]) 0 = Some (SP_player 0) \<and>
   trace (run init [Startup None, Recv ''A'' CLIENT_START_PUBLISH,
      Reply 0 (Resolved '''')]) =
     trace (run init [Startup None, Recv ''A'' CLIENT_START_PUBLISH]) @
       [Console LOG ''Kurento pipeline created'', Call 0 (CreatePlayerEndpoint 0)] \<and>
   pipeline (run init [Startup None, Recv ''A'' CLIENT_START_PUBLISH,
      Reply 0 (Resolved ''''), Reply 0 (Rejected ''e'')]) = Some 0 \<and>
   trace (run init [Startup None, Recv ''A'' CLIENT_START_PUBLISH,
      Reply 0 (Resolved ''''), Reply 0 (Rejected ''e'')]) =
     trace (run init [Startup None, Recv ''A'' CLIENT_START_PUBLISH, Reply 0 (Resolved '''')]) @
       [Console ERROR ''Promise ERROR:'']"
proof -
  let ?full = "[Startup None, Recv ''A'' CLIENT_START_PUBLISH,
      Reply 0 (Resolved ''''), Reply 0 (Resolved '''')]"
  have pe: "playerEndpoint (run init ?full) = Some 1"
    by (simp add: handlers init_def prims)
  then have h: "playerEndpoint (run init ?full) \<noteq> None"
    by simp
  from C4_endpoint_implies_pipeline [where es = ?full] h
  have 1: "pipeline (run init ?full) \<noteq> None"
    by blast
  let ?a = "run init [Startup None, Recv ''A'' CLIENT_START_PUBLISH]"
  have a: "status ?a = Running \<and> pool ?a 0 = Some SP_pipeline"
    by (simp add: handlers init_def prims)
  have na: "next_obj ?a = 0" "playerEndpoint ?a = None"
    by (simp_all add: handlers init_def prims)
  from C4_endpoint_implies_pipeline [where w = ?a and t = 0 and v = "''''"] a
  have 2: "pipeline (step ?a (Reply 0 (Resolved ''''))) = Some (next_obj ?a) \<and>
      playerEndpoint (step ?a (Reply 0 (Resolved ''''))) = playerEndpoint ?a \<and>
      pool (step ?a (Reply 0 (Resolved ''''))) 0 = Some (SP_player (next_obj ?a)) \<and>
      trace (step ?a (Reply 0 (Resolved ''''))) =
        trace ?a @ [Console LOG ''Kurento pipeline created'',
                    Call 0 (CreatePlayerEndpoint (next_obj ?a))]"
    by blast
  let ?b = "run init [Startup None, Recv ''A'' CLIENT_START_PUBLISH, Reply 0 (Resolved '''')]"
  have b: "status ?b = Running \<and> pool ?b 0 = Some (SP_player 0) \<and> publishing (SP_player 0)"
    by (simp add: handlers init_def prims)
  have pb: "pipeline ?b = Some 0"
    by (simp add: handlers init_def prims)
  from C4_endpoint_implies_pipeline
         [where w = ?b and t = 0 and k = "SP_player 0" and e = "''e''"] b
  have 3: "step ?b (Reply 0 (Rejected ''e'')) =
      ?b\<lparr>trace := trace ?b @ [Console ERROR ''Promise ERROR:''], pool := (pool ?b)(0 := None)\<rparr>"
    by blast
  have 4: "pipeline (step ?b (Reply 0 (Rejected ''e''))) = Some 0"
    "trace (step ?b (Reply 0 (Rejected ''e''))) = trace ?b @ [Console ERROR ''Promise ERROR:'']"
    unfolding 3 using pb by simp_all
  have r: "run init [Startup None, Recv ''A'' CLIENT_START_PUBLISH, Reply 0 (Resolved ''''),
      Reply 0 (Rejected ''e'')] = step ?b (Reply 0 (Rejected ''e''))"
    "?b = step ?a (Reply 0 (Resolved ''''))"
    by simp_all
  from pe 1 a 2 4 na show ?thesis
    unfolding r by simp
qed

text \<open>
  C4 as stated fails: when the request for the PlayerEndpoint is rejected, the pipeline
  stays in \<^verbatim>\<open>global.kurento.pipeline\<close> and the source endpoint is absent; and so it
  is already while the request is pending.
\<close>

theorem C4_counterexample:
  "pipeline (run init [Startup None, Recv ''A'' CLIENT_START_PUBLISH,
      Reply 0 (Resolved ''''), Reply 0 (Rejected ''e'')]) = Some 0 \<and>
   playerEndpoint (run init [Startup None, Recv ''A'' CLIENT_START_PUBLISH,
      Reply 0 (Resolved ''''), Reply 0 (Rejected ''e'')]) = None \<and>
   pool (run init [Startup None, Recv ''A'' CLIENT_START_PUBLISH,
      Reply 0 (Resolved ''''), Reply 0 (Rejected ''e'')]) 0 = None \<and>
   pipeline (run init [Startup None, Recv ''A'' CLIENT_START_PUBLISH,
      Reply 0 (Resolved '''')]) = Some 0 \<and>
   playerEndpoint (run init [Startup None, Recv ''A'' CLIENT_START_PUBLISH,
      Reply 0 (Resolved '''')]) = None"
  by (simp add: handlers init_def prims)

subsection \<open>Publish requests, one after the other and at the same time\<close>






subsection \<open>From one reply to the next\<close>

lemma before_reply_other:
  "(\<And>r. e \<noteq> Reply t r) \<Longrightarrow> before_reply t (e # es) = e # before_reply t es"
  by (cases e) auto

lemma after_reply_other:
  "(\<And>r. e \<noteq> Reply t r) \<Longrightarrow> after_reply t (e # es) = after_reply t es"
  by (cases e) auto

lemma no_startup_error_Cons:
  "no_startup_error (e # es) \<longleftrightarrow> \<not> is_startup_error e \<and> no_startup_error es"
  by (simp add: no_startup_error_def)

lemma trace_grows_step: "x \<in> set (trace w) \<Longrightarrow> x \<in> set (trace (step w e))"
proof (rule step_preserves [where P = "\<lambda>v. x \<in> set (trace v)"], goal_cases)
  case (2 t k r)
  then show ?case
    by (cases k; cases r)
       (auto simp: prims drain_eq Let_def split: option.splits list.splits)
next
  case (3 i m)
  then show ?case
    by (cases m) (auto simp: prims msgs split: option.splits)
next
  case (7 h ev)
  then show ?case
    by (auto simp: raised_def prims split: option.splits listener.splits backend_event.splits)
qed (auto simp: prims)

lemma trace_grows_run: "x \<in> set (trace w) \<Longrightarrow> x \<in> set (trace (run w es))"
  by (induction es arbitrary: w) (simp_all add: trace_grows_step)

lemma answered_single:
  assumes "answers i w = 1" and "Emit i (SERVER_SDP_ANSWER a) \<in> set (trace w)"
  shows "answered i w = [Emit i (SERVER_SDP_ANSWER a)]"
proof -
  from assms(1) obtain x where x: "filter (is_answer i) (trace w) = [x]"
    unfolding answers_def by (cases "filter (is_answer i) (trace w)") auto
  from assms(2) have "Emit i (SERVER_SDP_ANSWER a) \<in> set (filter (is_answer i) (trace w))"
    by simp
  with x show ?thesis
    by (simp add: answered_def)
qed

text \<open>
  A parked offer handler stays as it is until the backend replies to it; only the queue
  of its Session grows meanwhile, as long as the Session has no endpoint.
\<close>

lemma next_reply:
  assumes "inv_pool w" and "inv_offer w" and "status (run w es) = Running"
    and "pool w t = Some k" and "offer_sid k = Some i" and "sessions w i = Some s"
    and "replies_to t es = r # rs"
  shows "run w es = run (step (run w (before_reply t es)) (Reply t r)) (after_reply t es) \<and>
         replies_to t (after_reply t es) = rs \<and>
         inv_pool (run w (before_reply t es)) \<and> inv_offer (run w (before_reply t es)) \<and>
         status (run w (before_reply t es)) = Running \<and>
         pool (run w (before_reply t es)) t = Some k \<and>
         calls_by t (trace (run w (before_reply t es))) = calls_by t (trace w) \<and>
         answers i (run w (before_reply t es)) = answers i w \<and>
         sessions (run w (before_reply t es)) i =
           Some (s\<lparr>pendingCandidates := pendingCandidates s @
                     (if webrtcEndpoint s = None then candidates_on i (before_reply t es)
                      else [])\<rparr>)"
  using assms
proof (induction es arbitrary: w s)
  case Nil
  then show ?case by simp
next
  case (Cons e es)
  from Cons.prems(3) have F: "status (run (step w e) es) = Running" by simp
  then have "status (step w e) = Running" by (rule run_running)
  then have R: "status w = Running"
    using step_stopped [of w e] by (cases "status w = Running") simp_all
  show ?case
  proof (cases "\<exists>r'. e = Reply t r'")
    case True
    then obtain r' where e: "e = Reply t r'" by blast
    with Cons.prems R show ?thesis
      by simp
  next
    case False
    then have E: "\<And>r. e \<noteq> Reply t r" by blast
    let ?s = "s\<lparr>pendingCandidates := pendingCandidates s @
                 (if webrtcEndpoint s = None then candidates_on i [e] else [])\<rparr>"
    from step_other [OF Cons.prems(1,2) R Cons.prems(4,5,6) E]
    have o: "pool (step w e) t = Some k"
      "calls_by t (trace (step w e)) = calls_by t (trace w)"
      "answers i (step w e) = answers i w" "sessions (step w e) i = Some ?s"
      by simp_all
    from Cons.prems(7) replies_to_other [OF E, of es]
    have rep: "replies_to t es = r # rs" by simp
    note ih = Cons.IH [OF inv_pool_step [OF Cons.prems(1)] inv_offer_step [OF Cons.prems(2,1)]
        F o(1) Cons.prems(5) o(4) rep]
    from ih o(2,3) candidates_on_single [of i e "before_reply t es"]
    show ?thesis
      unfolding before_reply_other [OF E] after_reply_other [OF E]
      by (cases "webrtcEndpoint s") simp_all
  qed
qed

text \<open>The loop over the queue sends the answer that \<^verbatim>\<open>processOffer\<close> gave.\<close>

lemma drain_emits:
  assumes "inv_pool w" and "inv_offer w" and "status (run w es) = Running"
    and "pool w t = Some (SO_drain i a)" and "sessions w i = Some s"
    and "webrtcEndpoint s = Some ep"
    and "length (pendingCandidates s) < length (replies_to t es)"
  shows "Emit i (SERVER_SDP_ANSWER a) \<in> set (trace (run w es))"
  using assms
proof (induction es arbitrary: w s)
  case Nil
  then show ?case by simp
next
  case (Cons e es)
  from Cons.prems(3) have F: "status (run (step w e) es) = Running" by simp
  then have "status (step w e) = Running" by (rule run_running)
  then have R: "status w = Running"
    using step_stopped [of w e] by (cases "status w = Running") simp_all
  note B1 = inv_pool_step [OF Cons.prems(1), of e]
  note I1 = inv_offer_step [OF Cons.prems(2,1), of e]
  show ?case
  proof (cases "\<exists>r. e = Reply t r")
    case False
    then have E: "\<And>r. e \<noteq> Reply t r" by blast
    from step_other [OF Cons.prems(1,2) R Cons.prems(4) _ Cons.prems(5) E] Cons.prems(6)
    have o: "pool (step w e) t = Some (SO_drain i a)" "sessions (step w e) i = Some s"
      by simp_all
    from Cons.IH [OF B1 I1 F o(1) o(2) Cons.prems(6)] Cons.prems(7) replies_to_other [OF E, of es]
    show ?thesis by simp
  next
    case True
    then obtain r where e: "e = Reply t r" by blast
    note d = drain_step [OF disjI1 [OF Cons.prems(4)] Cons.prems(5,6) R, of r]
    show ?thesis
    proof (cases "pendingCandidates s")
      case Nil
      with d e have "Emit i (SERVER_SDP_ANSWER a) \<in> set (trace (step w e))"
        by simp
      then show ?thesis
        by (simp add: trace_grows_run)
    next
      case (Cons c rest)
      with d e have f: "pool (step w e) t = Some (SO_drain i a)"
        "sessions (step w e) i = Some (s\<lparr>pendingCandidates := rest\<rparr>)"
        by simp_all
      from Cons.IH [OF B1 I1 F f(1) f(2)] Cons.prems(6,7) Cons e
      show ?thesis by simp
    qed
  qed
qed

text \<open>
  From the reply to \<^verbatim>\<open>gatherCandidates\<close> to the answer: one call for each queued
  candidate, in the order of the queue.
\<close>

lemma gather_run:
  assumes B: "inv_pool w" and I: "inv_offer w"
    and F0: "status (run w (Reply t (Resolved v) # es)) = Running"
    and P0: "pool w t = Some (SO_gather i ep a)" and S: "sessions w i = Some s"
    and L: "length (pendingCandidates s) \<le> length (replies_to t es)"
  shows "calls_by t (trace (run w (Reply t (Resolved v) # es))) =
           calls_by t (trace w) @ map (AddIceCandidate ep) (pendingCandidates s) \<and>
         sessions (run w (Reply t (Resolved v) # es)) i = Some (s\<lparr>pendingCandidates := []\<rparr>) \<and>
         pool (run w (Reply t (Resolved v) # es)) t = None \<and>
         answers i (run w (Reply t (Resolved v) # es)) = answers i w + 1 \<and>
         Emit i (SERVER_SDP_ANSWER a) \<in> set (trace (run w (Reply t (Resolved v) # es)))"
proof -
  let ?e = "Reply t (Resolved v)"
  from F0 have F: "status (run (step w ?e) es) = Running" by simp
  then have R1: "status (step w ?e) = Running" by (rule run_running)
  then have R: "status w = Running"
    using step_stopped [of w ?e] by (cases "status w = Running") simp_all
  from P0 S I have E: "webrtcEndpoint s = Some ep"
    unfolding inv_offer_def by fastforce
  from P0 B have lt: "t < next_tid w"
    by (simp add: inv_pool_def)
  note B1 = inv_pool_step [OF B, of ?e]
  note I1 = inv_offer_step [OF I B, of ?e]
  have P: "pool w t = Some (SO_drain i a) \<or> (\<exists>ep'. pool w t = Some (SO_gather i ep' a) \<and>
      is_resolved (Resolved v))"
    using P0 by simp
  note d = drain_step [OF P S E R]
  have eq: "s' = s\<lparr>pendingCandidates := []\<rparr>"
    if "webrtcEndpoint s' = Some ep" "pendingCandidates s' = []" for s'
    using that E by (cases s; cases s') simp
  have "calls_by t (trace (run (step w ?e) es)) =
          calls_by t (trace w) @ map (AddIceCandidate ep) (pendingCandidates s) \<and>
        sessions (run (step w ?e) es) i = Some (s\<lparr>pendingCandidates := []\<rparr>) \<and>
        pool (run (step w ?e) es) t = None \<and>
        answers i (run (step w ?e) es) = answers i w + 1 \<and>
        Emit i (SERVER_SDP_ANSWER a) \<in> set (trace (run (step w ?e) es))"
  proof (cases "pendingCandidates s")
    case Nil
    with d have f: "pool (step w ?e) t = None"
      "calls_by t (trace (step w ?e)) = calls_by t (trace w)" "sessions (step w ?e) i = Some s"
      "answers i (step w ?e) = answers i w + 1"
      "Emit i (SERVER_SDP_ANSWER a) \<in> set (trace (step w ?e))"
      by simp_all
    have lt1: "t < next_tid (step w ?e)"
      using lt R P0 S Nil by (auto simp: step_def drain_eq prims)
    from R P0 have st: "step w ?e = resume t (SO_gather i ep a) (Resolved v) w"
      by (simp add: step_def)
    from no_offer_resume [OF I P0, of i "Resolved v"] f(1)
    have no: "no_offer (step w ?e) i"
      unfolding st by simp
    from f(3) have ne: "sessions (step w ?e) i \<noteq> None" by simp
    from endpoint_kept_run [OF B1 I1 f(3) E, of es] Nil
    obtain s' where "sessions (run (step w ?e) es) i = Some s'" "webrtcEndpoint s' = Some ep"
      "pendingCandidates s' = []"
      by auto
    with eq [of s'] have "sessions (run (step w ?e) es) i = Some (s\<lparr>pendingCandidates := []\<rparr>)"
      by simp
    with finished_run [OF B1 f(1) lt1, of es] f(2,4) answers_stable_run [OF B1 I1 no ne, of es]
      trace_grows_run [OF f(5), of es] Nil
    show ?thesis by simp
  next
    case (Cons c rest)
    with d have f: "pool (step w ?e) t = Some (SO_drain i a)"
      "calls_by t (trace (step w ?e)) = calls_by t (trace w) @ [AddIceCandidate ep c]"
      "sessions (step w ?e) i = Some (s\<lparr>pendingCandidates := rest\<rparr>)"
      "answers i (step w ?e) = answers i w"
      by simp_all
    from L Cons have len: "length rest < length (replies_to t es)" by simp
    then have len': "length (pendingCandidates (s\<lparr>pendingCandidates := rest\<rparr>))
        < length (replies_to t es)"
      by simp
    have E': "webrtcEndpoint (s\<lparr>pendingCandidates := rest\<rparr>) = Some ep"
      using E by simp
    from drain_run [OF B1 I1 F f(1) f(3) E'] len
    obtain s' where r: "calls_by t (trace (run (step w ?e) es)) =
        calls_by t (trace (step w ?e)) @ map (AddIceCandidate ep) rest"
      "sessions (run (step w ?e) es) i = Some s'" "webrtcEndpoint s' = Some ep"
      "pendingCandidates s' = []" "pool (run (step w ?e) es) t = None"
      "answers i (run (step w ?e) es) = answers i (step w ?e) + 1"
      by auto
    from r(2) eq [OF r(3,4)]
    have "sessions (run (step w ?e) es) i = Some (s\<lparr>pendingCandidates := []\<rparr>)"
      by simp
    with r(1,5,6) f(2,4) drain_emits [OF B1 I1 F f(1) f(3) E' len'] Cons
    show ?thesis by simp
  qed
  then show ?thesis
    by simp
qed

subsection \<open>Emptying the queue\<close>

lemma candidate_queued:
  "status w = Running \<Longrightarrow> sessions w i = Some s \<Longrightarrow> webrtcEndpoint s = None \<Longrightarrow>
     step w (Recv i (CLIENT_ICE_CANDIDATE c)) =
       w\<lparr>next_tid := Suc (next_tid w),
         sessions := (sessions w)(i \<mapsto> s\<lparr>pendingCandidates := pendingCandidates s @ [c]\<rparr>)\<rparr>"
  by (simp add: step_def msgs)




subsection \<open>An offer whose four calls resolve\<close>

text \<open>
  The whole way of an offer that finds a pipeline: the endpoint is created, connected to
  the publisher endpoint of that moment, the offer is processed, the candidates are
  gathered, and the candidates that came between the offer and the endpoint are handed
  over, in their order; then the answer of \<^verbatim>\<open>processOffer\<close> is sent.
\<close>

lemma offer_exact:
  assumes B: "inv_pool w" and I: "inv_offer w" and A: "inv_ans w" and T: "inv_trace w"
    and F: "status (run w (Recv i (CLIENT_SDP_OFFER sdpOffer) # es)) = Running"
    and S: "sessions w i = None" and P: "pipeline w = Some p"
    and PE: "playerEndpoint (run w (Recv i (CLIENT_SDP_OFFER sdpOffer) #
               before_reply (next_tid w) es)) = Some pe"
    and N: "next_obj (run w (Recv i (CLIENT_SDP_OFFER sdpOffer) #
               before_reply (next_tid w) es)) = ep"
    and R4: "take 4 (replies_to (next_tid w) es) =
               [Resolved v1, Resolved v2, Resolved a, Resolved v4]"
    and L: "4 + length (candidates_on i (before_reply (next_tid w) es))
              \<le> length (replies_to (next_tid w) es)"
  shows "calls_by (next_tid w) (trace (run w (Recv i (CLIENT_SDP_OFFER sdpOffer) # es))) =
           [CreateWebRtcEndpoint p, ConnectTo pe ep, ProcessOffer ep sdpOffer,
            GatherCandidates ep] @
           map (AddIceCandidate ep) (candidates_on i (before_reply (next_tid w) es)) \<and>
         sessions (run w (Recv i (CLIENT_SDP_OFFER sdpOffer) # es)) i =
           Some \<lparr>webrtcEndpoint = Some ep, pendingCandidates = []\<rparr> \<and>
         pool (run w (Recv i (CLIENT_SDP_OFFER sdpOffer) # es)) (next_tid w) = None \<and>
         answers i (run w (Recv i (CLIENT_SDP_OFFER sdpOffer) # es)) = 1 \<and>
         Emit i (SERVER_SDP_ANSWER a) \<in>
           set (trace (run w (Recv i (CLIENT_SDP_OFFER sdpOffer) # es)))"
proof -
  let ?e = "Recv i (CLIENT_SDP_OFFER sdpOffer)"
  let ?t = "next_tid w"
  let ?cs = "candidates_on i (before_reply ?t es)"
  define rest where "rest = drop 4 (replies_to ?t es)"
  from R4 append_take_drop_id [of 4 "replies_to ?t es"]
  have reps: "replies_to ?t es = Resolved v1 # Resolved v2 # Resolved a # Resolved v4 # rest"
    by (simp add: rest_def)
  with L have len: "length ?cs \<le> length rest"
    by simp
  \<comment> \<open>the offer, lines 196-215\<close>
  define w0 where "w0 = step w ?e"
  from F have F0: "status (run w0 es) = Running"
    by (simp add: w0_def)
  then have "status w0 = Running" by (rule run_running)
  then have R: "status w = Running"
    using step_stopped [of w ?e] by (cases "status w = Running") (simp_all add: w0_def)
  from A S have zero: "answers i w = 0"
    by (simp add: inv_ans_def)
  from T have none: "calls_by ?t (trace w) = []"
    unfolding inv_trace_def by (rule calls_by_none) simp
  have B0: "inv_pool w0" and I0: "inv_offer w0"
    unfolding w0_def by (rule inv_pool_step [OF B], rule inv_offer_step [OF I B])
  from R S P zero none
  have 0: "pool w0 ?t = Some (SO_endpoint i sdpOffer)"
    "sessions w0 i = Some \<lparr>webrtcEndpoint = None, pendingCandidates = []\<rparr>"
    "calls_by ?t (trace w0) = [CreateWebRtcEndpoint p]" "answers i w0 = 0"
    unfolding w0_def by (simp_all add: step_def msgs prims answers_def calls_by_append)
  \<comment> \<open>the endpoint, lines 216-234\<close>
  define w1 where "w1 = run w0 (before_reply ?t es)"
  define es1 where "es1 = after_reply ?t es"
  define w2 where "w2 = step w1 (Reply ?t (Resolved v1))"
  from next_reply [OF B0 I0 F0 0(1) _ 0(2) reps] 0(3,4)
  have 1: "run w0 es = run w2 es1"
    "replies_to ?t es1 = Resolved v2 # Resolved a # Resolved v4 # rest"
    "inv_pool w1" "inv_offer w1" "status w1 = Running"
    "pool w1 ?t = Some (SO_endpoint i sdpOffer)"
    "calls_by ?t (trace w1) = [CreateWebRtcEndpoint p]" "answers i w1 = 0"
    "sessions w1 i = Some \<lparr>webrtcEndpoint = None, pendingCandidates = ?cs\<rparr>"
    unfolding w1_def es1_def w2_def by simp_all
  from PE N have pe: "playerEndpoint w1 = Some pe" "next_obj w1 = ep"
    by (simp_all add: w1_def w0_def)
  from 1(1) F0 have F2: "status (run w2 es1) = Running" by simp
  have B2: "inv_pool w2" and I2: "inv_offer w2"
    unfolding w2_def by (rule inv_pool_step [OF 1(3)], rule inv_offer_step [OF 1(4,3)])
  from 1(5-9) pe
  have 2: "pool w2 ?t = Some (SO_connect i sdpOffer ep)"
    "sessions w2 i = Some \<lparr>webrtcEndpoint = Some ep, pendingCandidates = ?cs\<rparr>"
    "calls_by ?t (trace w2) = [CreateWebRtcEndpoint p, ConnectTo pe ep]" "answers i w2 = 0"
    unfolding w2_def by (simp_all add: step_def prims Let_def answers_def calls_by_append)
  \<comment> \<open>\<^verbatim>\<open>connect\<close>, lines 235-243\<close>
  define w3 where "w3 = run w2 (before_reply ?t es1)"
  define es2 where "es2 = after_reply ?t es1"
  define w4 where "w4 = step w3 (Reply ?t (Resolved v2))"
  from next_reply [OF B2 I2 F2 2(1) _ 2(2) 1(2)] 2(3,4)
  have 3: "run w2 es1 = run w4 es2"
    "replies_to ?t es2 = Resolved a # Resolved v4 # rest"
    "inv_pool w3" "inv_offer w3" "status w3 = Running"
    "pool w3 ?t = Some (SO_connect i sdpOffer ep)"
    "calls_by ?t (trace w3) = [CreateWebRtcEndpoint p, ConnectTo pe ep]" "answers i w3 = 0"
    "sessions w3 i = Some \<lparr>webrtcEndpoint = Some ep, pendingCandidates = ?cs\<rparr>"
    unfolding w3_def es2_def w4_def by simp_all
  from 3(1) F2 have F4: "status (run w4 es2) = Running" by simp
  have B4: "inv_pool w4" and I4: "inv_offer w4"
    unfolding w4_def by (rule inv_pool_step [OF 3(3)], rule inv_offer_step [OF 3(4,3)])
  from 3(5-9)
  have 4: "pool w4 ?t = Some (SO_processOffer i ep)"
    "sessions w4 i = Some \<lparr>webrtcEndpoint = Some ep, pendingCandidates = ?cs\<rparr>"
    "calls_by ?t (trace w4) =
       [CreateWebRtcEndpoint p, ConnectTo pe ep, ProcessOffer ep sdpOffer]"
    "answers i w4 = 0"
    unfolding w4_def by (simp_all add: step_def prims answers_def calls_by_append)
  \<comment> \<open>\<^verbatim>\<open>processOffer\<close>, lines 244-252\<close>
  define w5 where "w5 = run w4 (before_reply ?t es2)"
  define es3 where "es3 = after_reply ?t es2"
  define w6 where "w6 = step w5 (Reply ?t (Resolved a))"
  from next_reply [OF B4 I4 F4 4(1) _ 4(2) 3(2)] 4(3,4)
  have 5: "run w4 es2 = run w6 es3"
    "replies_to ?t es3 = Resolved v4 # rest"
    "inv_pool w5" "inv_offer w5" "status w5 = Running"
    "pool w5 ?t = Some (SO_processOffer i ep)"
    "calls_by ?t (trace w5) =
       [CreateWebRtcEndpoint p, ConnectTo pe ep, ProcessOffer ep sdpOffer]"
    "answers i w5 = 0"
    "sessions w5 i = Some \<lparr>webrtcEndpoint = Some ep, pendingCandidates = ?cs\<rparr>"
    unfolding w5_def es3_def w6_def by simp_all
  from 5(1) F4 have F6: "status (run w6 es3) = Running" by simp
  have B6: "inv_pool w6" and I6: "inv_offer w6"
    unfolding w6_def by (rule inv_pool_step [OF 5(3)], rule inv_offer_step [OF 5(4,3)])
  from 5(5-9)
  have 6: "pool w6 ?t = Some (SO_gather i ep a)"
    "sessions w6 i = Some \<lparr>webrtcEndpoint = Some ep, pendingCandidates = ?cs\<rparr>"
    "calls_by ?t (trace w6) =
       [CreateWebRtcEndpoint p, ConnectTo pe ep, ProcessOffer ep sdpOffer, GatherCandidates ep]"
    "answers i w6 = 0"
    unfolding w6_def by (simp_all add: step_def prims answers_def calls_by_append)
  \<comment> \<open>\<^verbatim>\<open>gatherCandidates\<close> and the loop, lines 253-266\<close>
  define w7 where "w7 = run w6 (before_reply ?t es3)"
  define es4 where "es4 = after_reply ?t es3"
  from next_reply [OF B6 I6 F6 6(1) _ 6(2) 5(2)] 6(3,4)
  have 7: "run w6 es3 = run w7 (Reply ?t (Resolved v4) # es4)"
    "replies_to ?t es4 = rest"
    "inv_pool w7" "inv_offer w7"
    "pool w7 ?t = Some (SO_gather i ep a)"
    "calls_by ?t (trace w7) =
       [CreateWebRtcEndpoint p, ConnectTo pe ep, ProcessOffer ep sdpOffer, GatherCandidates ep]"
    "answers i w7 = 0"
    "sessions w7 i = Some \<lparr>webrtcEndpoint = Some ep, pendingCandidates = ?cs\<rparr>"
    unfolding w7_def es4_def by simp_all
  from 7(1) F6 have F7: "status (run w7 (Reply ?t (Resolved v4) # es4)) = Running" by simp
  from len 7(2)
  have len7: "length (pendingCandidates \<lparr>webrtcEndpoint = Some ep, pendingCandidates = ?cs\<rparr>)
      \<le> length (replies_to ?t es4)"
    by simp
  have all: "run w (?e # es) = run w7 (Reply ?t (Resolved v4) # es4)"
    using 1(1) 3(1) 5(1) 7(1) by (simp add: w0_def)
  from gather_run [OF 7(3,4) F7 7(5) 7(8) len7] 7(6,7)
  show ?thesis
    unfolding all by simp
qed

lemma offer_rejected:
  assumes "inv_pool w" and "status w = Running"
    and "pool w t = Some k" and "offer_sid k = Some i" and "0 < stage_left k"
  shows "step w (Reply t (Rejected e)) =
           w\<lparr>trace := trace w @ [Console ERROR ''Promise ERROR:''],
             pool := (pool w)(t := None)\<rparr> \<and>
         calls_by t (trace (run w (Reply t (Rejected e) # es))) = calls_by t (trace w)"
proof -
  let ?w = "step w (Reply t (Rejected e))"
  from assms(2-5) have st: "?w =
      w\<lparr>trace := trace w @ [Console ERROR ''Promise ERROR:''], pool := (pool w)(t := None)\<rparr>"
    by (cases k) (simp_all add: step_def prims)
  from assms(1,3) have "t < next_tid w"
    by (simp add: inv_pool_def)
  then have "pool ?w t = None" "t < next_tid ?w" "calls_by t (trace ?w) = calls_by t (trace w)"
    unfolding st by (simp_all add: calls_by_append)
  with finished_run [OF inv_pool_step [OF assms(1)], of "Reply t (Rejected e)" t es] st
  show ?thesis by simp
qed

lemma offer_finds_no_pipeline:
  "status w = Running \<Longrightarrow> sessions w i = None \<Longrightarrow> pipeline w = None \<Longrightarrow>
     step w (Recv i (CLIENT_SDP_OFFER sdpOffer)) =
       w\<lparr>next_tid := Suc (next_tid w),
         trace := trace w @ [SessionsSet i, Console ERROR ''Promise ERROR:''],
         sessions := (sessions w)(i \<mapsto> \<lparr>webrtcEndpoint = None, pendingCandidates = []\<rparr>)\<rparr>"
  by (simp add: step_def msgs prims)

lemma offer_finds_no_publisher:
  "status w = Running \<Longrightarrow> pool w t = Some (SO_endpoint i sdpOffer) \<Longrightarrow>
   sessions w i = Some s \<Longrightarrow> playerEndpoint w = None \<Longrightarrow>
     step w (Reply t (Resolved v)) =
       w\<lparr>next_obj := Suc (next_obj w),
         sessions := (sessions w)(i \<mapsto> s\<lparr>webrtcEndpoint := Some (next_obj w)\<rparr>),
         listeners := (listeners w)(next_obj w \<mapsto> OnWebRtcEndpoint i),
         trace := trace w @ [Console ERROR ''ERROR: Publisher endpoint doesn't exist''],
         pool := (pool w)(t := None)\<rparr>"
  by (simp add: step_def prims Let_def)

text \<open>
  C5. Under every interleaving a socket is sent at most one \<^verbatim>\<open>SERVER_SDP_ANSWER\<close>.
  When the backend rejects one of the four calls of the offer handler (creating the
  endpoint, connecting it to the publisher, processing the offer, gathering candidates),
  the handler logs the error and ends, it makes no further call, and the socket is never
  sent an answer, whatever happens later. An offer that finds no pipeline registers its
  Session, logs the error, makes no call, and the socket is never sent an answer; an
  offer whose endpoint is created while there is no publisher endpoint logs that and
  ends, and the socket is never sent an answer. And when the offer of a socket without
  Session finds a pipeline, the publisher endpoint exists at the moment the endpoint is
  created, the four calls resolve, the backend replies to the call for each candidate
  that was queued before the endpoint existed, and no failed start of the Kurento client
  ends the process meanwhile, then the handler makes exactly the four calls, on the
  objects of that moment, followed by one call for each queued candidate, and the socket
  is sent exactly one answer: the one that \<^verbatim>\<open>processOffer\<close> resolved with.
\<close>

theorem C5_answer_iff_all_steps_succeed:
  "answers i (run init es0) \<le> 1 \<and>
   (w = run init es0 \<and> status w = Running \<and> pool w t = Some k \<and> offer_sid k = Some i \<and>
    0 < stage_left k \<longrightarrow>
      step w (Reply t (Rejected e)) =
        w\<lparr>trace := trace w @ [Console ERROR ''Promise ERROR:''],
          pool := (pool w)(t := None)\<rparr> \<and>
      calls_by t (trace (run w (Reply t (Rejected e) # es))) = calls_by t (trace w) \<and>
      answers i (run w (Reply t (Rejected e) # es)) = 0) \<and>
   (w = run init es0 \<and> status w = Running \<and> sessions w i = None \<and> pipeline w = None \<longrightarrow>
      step w (Recv i (CLIENT_SDP_OFFER sdpOffer)) =
        w\<lparr>next_tid := Suc (next_tid w),
          trace := trace w @ [SessionsSet i, Console ERROR ''Promise ERROR:''],
          sessions := (sessions w)(i \<mapsto> \<lparr>webrtcEndpoint = None, pendingCandidates = []\<rparr>)\<rparr> \<and>
      answers i (run w (Recv i (CLIENT_SDP_OFFER sdpOffer) # es)) = 0) \<and>
   (w = run init es0 \<and> status w = Running \<and> pool w t = Some (SO_endpoint i sdpOffer) \<and>
    sessions w i = Some s \<and> playerEndpoint w = None \<longrightarrow>
      step w (Reply t (Resolved v)) =
        w\<lparr>next_obj := Suc (next_obj w),
          sessions := (sessions w)(i \<mapsto> s\<lparr>webrtcEndpoint := Some (next_obj w)\<rparr>),
          listeners := (listeners w)(next_obj w \<mapsto> OnWebRtcEndpoint i),
          trace := trace w @ [Console ERROR ''ERROR: Publisher endpoint doesn't exist''],
          pool := (pool w)(t := None)\<rparr> \<and>
      answers i (run w (Reply t (Resolved v) # es)) = 0) \<and>
   (w = run init es0 \<and> status w = Running \<and> sessions w i = None \<and> pipeline w = Some p \<and>
    playerEndpoint (run w (Recv i (CLIENT_SDP_OFFER sdpOffer) #
       before_reply (next_tid w) es)) = Some pe \<and>
    next_obj (run w (Recv i (CLIENT_SDP_OFFER sdpOffer) #
       before_reply (next_tid w) es)) = ep \<and>
    take 4 (replies_to (next_tid w) es) =
      [Resolved v1, Resolved v2, Resolved a, Resolved v4] \<and>
    4 + length (candidates_on i (before_reply (next_tid w) es))
      \<le> length (replies_to (next_tid w) es) \<and>
    no_startup_error es \<longrightarrow>
      status (run w (Recv i (CLIENT_SDP_OFFER sdpOffer) # es)) = Running \<and>
      calls_by (next_tid w) (trace (run w (Recv i (CLIENT_SDP_OFFER sdpOffer) # es))) =
        [CreateWebRtcEndpoint p, ConnectTo pe ep, ProcessOffer ep sdpOffer,
         GatherCandidates ep] @
        map (AddIceCandidate ep) (candidates_on i (before_reply (next_tid w) es)) \<and>
      pool (run w (Recv i (CLIENT_SDP_OFFER sdpOffer) # es)) (next_tid w) = None \<and>
      answered i (run w (Recv i (CLIENT_SDP_OFFER sdpOffer) # es)) =
        [Emit i (SERVER_SDP_ANSWER a)])"
proof -
  have inv: "inv_pool (run init es0)" "inv_offer (run init es0)" "inv_ans (run init es0)"
    using inv_reach [of es0] inv_ans_reach [of es0] by simp_all
  have safe: "inv_safe (run init es0)" and tr: "inv_trace (run init es0)"
    using inv_safe_reach [of es0] inv_trace_reach [of es0] by simp_all
  from inv(3) have 1: "answers i (run init es0) \<le> 1"
    by (simp add: inv_ans_def)
  have 2: "step w (Reply t (Rejected e)) =
        w\<lparr>trace := trace w @ [Console ERROR ''Promise ERROR:''],
          pool := (pool w)(t := None)\<rparr> \<and>
      calls_by t (trace (run w (Reply t (Rejected e) # es))) = calls_by t (trace w) \<and>
      answers i (run w (Reply t (Rejected e) # es)) = 0"
    if "w = run init es0" "status w = Running" "pool w t = Some k" "offer_sid k = Some i"
      "0 < stage_left k"
    using offer_failed [OF inv [folded that(1)] that(2-5), of e es]
      conjunct1 [OF offer_rejected [OF inv(1) [folded that(1)] that(2-5), of e es]]
      conjunct2 [OF offer_rejected [OF inv(1) [folded that(1)] that(2-5), of e es]]
    by (simp only: run_Cons simp_thms)
  have 3: "step w (Recv i (CLIENT_SDP_OFFER sdpOffer)) =
        w\<lparr>next_tid := Suc (next_tid w),
          trace := trace w @ [SessionsSet i, Console ERROR ''Promise ERROR:''],
          sessions := (sessions w)(i \<mapsto> \<lparr>webrtcEndpoint = None, pendingCandidates = []\<rparr>)\<rparr> \<and>
      answers i (run w (Recv i (CLIENT_SDP_OFFER sdpOffer) # es)) = 0"
    if "w = run init es0" "status w = Running" "sessions w i = None" "pipeline w = None"
    using offer_without_pipeline [OF inv [folded that(1)] that(2-4), of sdpOffer es]
      offer_finds_no_pipeline [OF that(2-4), of sdpOffer]
    by simp
  have 4: "step w (Reply t (Resolved v)) =
        w\<lparr>next_obj := Suc (next_obj w),
          sessions := (sessions w)(i \<mapsto> s\<lparr>webrtcEndpoint := Some (next_obj w)\<rparr>),
          listeners := (listeners w)(next_obj w \<mapsto> OnWebRtcEndpoint i),
          trace := trace w @ [Console ERROR ''ERROR: Publisher endpoint doesn't exist''],
          pool := (pool w)(t := None)\<rparr> \<and>
      answers i (run w (Reply t (Resolved v) # es)) = 0"
    if "w = run init es0" "status w = Running" "pool w t = Some (SO_endpoint i sdpOffer)"
      "sessions w i = Some s" "playerEndpoint w = None"
    using offer_without_player [OF inv [folded that(1)] that(2,3,5), of v es]
      offer_finds_no_publisher [OF that(2-5), of v]
    by simp
  have 5: "status (run w (Recv i (CLIENT_SDP_OFFER sdpOffer) # es)) = Running \<and>
      calls_by (next_tid w) (trace (run w (Recv i (CLIENT_SDP_OFFER sdpOffer) # es))) =
        [CreateWebRtcEndpoint p, ConnectTo pe ep, ProcessOffer ep sdpOffer,
         GatherCandidates ep] @
        map (AddIceCandidate ep) (candidates_on i (before_reply (next_tid w) es)) \<and>
      pool (run w (Recv i (CLIENT_SDP_OFFER sdpOffer) # es)) (next_tid w) = None \<and>
      answered i (run w (Recv i (CLIENT_SDP_OFFER sdpOffer) # es)) =
        [Emit i (SERVER_SDP_ANSWER a)]"
    if "w = run init es0" "status w = Running" "sessions w i = None" "pipeline w = Some p"
      "playerEndpoint (run w (Recv i (CLIENT_SDP_OFFER sdpOffer) #
         before_reply (next_tid w) es)) = Some pe"
      "next_obj (run w (Recv i (CLIENT_SDP_OFFER sdpOffer) #
         before_reply (next_tid w) es)) = ep"
      "take 4 (replies_to (next_tid w) es) =
         [Resolved v1, Resolved v2, Resolved a, Resolved v4]"
      "4 + length (candidates_on i (before_reply (next_tid w) es))
         \<le> length (replies_to (next_tid w) es)"
      "no_startup_error es"
  proof -
    from that(9) have "no_startup_error (Recv i (CLIENT_SDP_OFFER sdpOffer) # es)"
      by (simp add: no_startup_error_Cons)
    from stays_running [OF safe [folded that(1)] inv(2,1) [folded that(1)] that(2) this]
    have F: "status (run w (Recv i (CLIENT_SDP_OFFER sdpOffer) # es)) = Running" .
    note x = offer_exact [OF inv [folded that(1)] tr [folded that(1)] F that(3-8)]
    from x answered_single [of i "run w (Recv i (CLIENT_SDP_OFFER sdpOffer) # es)" a] F
    show ?thesis by simp
  qed
  show ?thesis
  proof (intro conjI)
    show "answers i (run init es0) \<le> 1"
      by (rule 1)
  qed (intro impI, elim conjE, rule 2 3 4 5, assumption+)+
qed

theorem C5_answer_iff_all_steps_succeed_witness:
  "pool (run init [Startup None, Recv ''P'' CLIENT_START_PUBLISH, Reply 0 (Resolved ''''),
      Reply 0 (Resolved ''''), Recv ''A'' (CLIENT_SDP_OFFER ''o''), Reply 1 (Resolved ''''),
      Reply 1 (Resolved '''')]) 1 = Some (SO_processOffer ''A'' 2) \<and>
   trace (run init [Startup None, Recv ''P'' CLIENT_START_PUBLISH, Reply 0 (Resolved ''''),
      Reply 0 (Resolved ''''), Recv ''A'' (CLIENT_SDP_OFFER ''o''), Reply 1 (Resolved ''''),
      Reply 1 (Resolved ''''), Reply 1 (Rejected ''e'')]) =
     trace (run init [Startup None, Recv ''P'' CLIENT_START_PUBLISH, Reply 0 (Resolved ''''),
      Reply 0 (Resolved ''''), Recv ''A'' (CLIENT_SDP_OFFER ''o''), Reply 1 (Resolved ''''),
      Reply 1 (Resolved '''')]) @ [Console ERROR ''Promise ERROR:''] \<and>
   calls_by 1 (trace (run init [Startup None, Recv ''P'' CLIENT_START_PUBLISH,
      Reply 0 (Resolved ''''), Reply 0 (Resolved ''''), Recv ''A'' (CLIENT_SDP_OFFER ''o''),
      Reply 1 (Resolved ''''), Reply 1 (Resolved ''''), Reply 1 (Rejected ''e''),
      Reply 1 (Resolved '''')])) =
     [CreateWebRtcEndpoint 0, ConnectTo 1 2, ProcessOffer 2 ''o''] \<and>
   answers ''A'' (run init [Startup None, Recv ''P'' CLIENT_START_PUBLISH, Reply 0 (Resolved ''''),
      Reply 0 (Resolved ''''), Recv ''A'' (CLIENT_SDP_OFFER ''o''), Reply 1 (Resolved ''''),
      Reply 1 (Resolved ''''), Reply 1 (Rejected ''e''), Reply 1 (Resolved '''')]) = 0 \<and>
   trace (run init [Recv ''A'' (CLIENT_SDP_OFFER ''o'')]) =
     [SessionsSet ''A'', Console ERROR ''Promise ERROR:''] \<and>
   answers ''A'' (run init [Recv ''A'' (CLIENT_SDP_OFFER ''o''), Startup None]) = 0 \<and>
   playerEndpoint (run init [Startup None, Recv ''P'' CLIENT_START_PUBLISH,
      Reply 0 (Resolved ''''), Recv ''A'' (CLIENT_SDP_OFFER ''o'')]) = None \<and>
   trace (run init [Startup None, Recv ''P'' CLIENT_START_PUBLISH,
      Reply 0 (Resolved ''''), Recv ''A'' (CLIENT_SDP_OFFER ''o''), Reply 1 (Resolved '''')]) =
     trace (run init [Startup None, Recv ''P'' CLIENT_START_PUBLISH,
      Reply 0 (Resolved ''''), Recv ''A'' (CLIENT_SDP_OFFER ''o'')]) @
     [Console ERROR ''ERROR: Publisher endpoint doesn't exist''] \<and>
   answers ''A'' (run init [Startup None, Recv ''P'' CLIENT_START_PUBLISH,
      Reply 0 (Resolved ''''), Recv ''A'' (CLIENT_SDP_OFFER ''o''), Reply 1 (Resolved ''''),
      Reply 0 (Resolved '''')]) = 0 \<and>
   playerEndpoint (run init [Startup None, Recv ''P'' CLIENT_START_PUBLISH,
      Reply 0 (Resolved '''')]) = None \<and>
   status (run init [Startup None, Recv ''P'' CLIENT_START_PUBLISH, Reply 0 (Resolved ''''),
      Recv ''A'' (CLIENT_SDP_OFFER ''o''), Recv ''A'' (CLIENT_ICE_CANDIDATE ''c1''),
      Reply 0 (Resolved ''''), Reply 1 (Resolved ''''),
      Recv ''A'' (CLIENT_ICE_CANDIDATE ''c2''), Reply 1 (Resolved ''''),
      Reply 1 (Resolved ''ans''), Reply 3 (Resolved ''''), Reply 1 (Resolved ''''),
      Reply 1 (Rejected ''x'')]) = Running \<and>
   calls_by 1 (trace (run init [Startup None, Recv ''P'' CLIENT_START_PUBLISH,
      Reply 0 (Resolved ''''),
      Recv ''A'' (CLIENT_SDP_OFFER ''o''), Recv ''A'' (CLIENT_ICE_CANDIDATE ''c1''),
      Reply 0 (Resolved ''''), Reply 1 (Resolved ''''),
      Recv ''A'' (CLIENT_ICE_CANDIDATE ''c2''), Reply 1 (Resolved ''''),
      Reply 1 (Resolved ''ans''), Reply 3 (Resolved ''''), Reply 1 (Resolved ''''),
      Reply 1 (Rejected ''x'')])) =
     [CreateWebRtcEndpoint 0, ConnectTo 1 2, ProcessOffer 2 ''o'', GatherCandidates 2,
      AddIceCandidate 2 ''c1''] \<and>
   pool (run init [Startup None, Recv ''P'' CLIENT_START_PUBLISH, Reply 0 (Resolved ''''),
      Recv ''A'' (CLIENT_SDP_OFFER ''o''), Recv ''A'' (CLIENT_ICE_CANDIDATE ''c1''),
      Reply 0 (Resolved ''''), Reply 1 (Resolved ''''),
      Recv ''A'' (CLIENT_ICE_CANDIDATE ''c2''), Reply 1 (Resolved ''''),
      Reply 1 (Resolved ''ans''), Reply 3 (Resolved ''''), Reply 1 (Resolved ''''),
      Reply 1 (Rejected ''x'')]) 1 = None \<and>
   answered ''A'' (run init [Startup None, Recv ''P'' CLIENT_START_PUBLISH,
      Reply 0 (Resolved ''''),
      Recv ''A'' (CLIENT_SDP_OFFER ''o''), Recv ''A'' (CLIENT_ICE_CANDIDATE ''c1''),
      Reply 0 (Resolved ''''), Reply 1 (Resolved ''''),
      Recv ''A'' (CLIENT_ICE_CANDIDATE ''c2''), Reply 1 (Resolved ''''),
      Reply 1 (Resolved ''ans''), Reply 3 (Resolved ''''), Reply 1 (Resolved ''''),
      Reply 1 (Rejected ''x'')]) = [Emit ''A'' (SERVER_SDP_ANSWER ''ans'')]"
proof -
  let ?pub = "[Startup None, Recv ''P'' CLIENT_START_PUBLISH, Reply 0 (Resolved ''''),
      Reply 0 (Resolved '''')]"
  let ?ea = "?pub @ [Recv ''A'' (CLIENT_SDP_OFFER ''o''), Reply 1 (Resolved ''''),
      Reply 1 (Resolved '''')]"
  let ?a = "run init ?ea"
  let ?ka = "SO_processOffer ''A'' 2"
  have a: "status ?a = Running" "pool ?a 1 = Some ?ka" "offer_sid ?ka = Some ''A''"
    "0 < stage_left ?ka"
    by (simp_all add: handlers init_def prims)
  have ca: "calls_by 1 (trace ?a) = [CreateWebRtcEndpoint 0, ConnectTo 1 2, ProcessOffer 2 ''o'']"
    by (simp add: handlers init_def prims)
  from C5_answer_iff_all_steps_succeed
         [where w = ?a and t = 1 and k = ?ka and i = "''A''"
            and e = "''e''" and es = "[Reply 1 (Resolved '''')]" and ?es0.0 = ?ea] a
  have xa: "step ?a (Reply 1 (Rejected ''e'')) =
        ?a\<lparr>trace := trace ?a @ [Console ERROR ''Promise ERROR:''],
          pool := (pool ?a)(1 := None)\<rparr>"
    "calls_by 1 (trace (run ?a [Reply 1 (Rejected ''e''), Reply 1 (Resolved '''')])) =
        calls_by 1 (trace ?a)"
    "answers ''A'' (run ?a [Reply 1 (Rejected ''e''), Reply 1 (Resolved '''')]) = 0"
    by blast+
  have 1: "trace (step ?a (Reply 1 (Rejected ''e''))) =
        trace ?a @ [Console ERROR ''Promise ERROR:'']"
    "calls_by 1 (trace (run ?a [Reply 1 (Rejected ''e''), Reply 1 (Resolved '''')])) =
        [CreateWebRtcEndpoint 0, ConnectTo 1 2, ProcessOffer 2 ''o'']"
    "answers ''A'' (run ?a [Reply 1 (Rejected ''e''), Reply 1 (Resolved '''')]) = 0"
    by (subst xa(1), simp, simp only: xa(2) ca, rule xa(3))
  let ?b = "run init []"
  have b: "status ?b = Running" "sessions ?b ''A'' = None" "pipeline ?b = None"
    by (simp_all add: init_def)
  have tb: "trace ?b = []"
    by (simp add: init_def)
  from C5_answer_iff_all_steps_succeed
         [where w = ?b and i = "''A''" and sdpOffer = "''o''" and es = "[Startup None]"
            and ?es0.0 = "[]"] b
  have xb: "step ?b (Recv ''A'' (CLIENT_SDP_OFFER ''o'')) =
        ?b\<lparr>next_tid := Suc (next_tid ?b),
          trace := trace ?b @ [SessionsSet ''A'', Console ERROR ''Promise ERROR:''],
          sessions := (sessions ?b)(''A'' \<mapsto> \<lparr>webrtcEndpoint = None, pendingCandidates = []\<rparr>)\<rparr>"
    "answers ''A'' (run ?b [Recv ''A'' (CLIENT_SDP_OFFER ''o''), Startup None]) = 0"
    by blast+
  have 2: "trace (step ?b (Recv ''A'' (CLIENT_SDP_OFFER ''o''))) =
        [SessionsSet ''A'', Console ERROR ''Promise ERROR:'']"
    "answers ''A'' (run ?b [Recv ''A'' (CLIENT_SDP_OFFER ''o''), Startup None]) = 0"
    by (subst xb(1), simp add: init_def, rule xb(2))
  let ?ec = "[Startup None, Recv ''P'' CLIENT_START_PUBLISH,
      Reply 0 (Resolved ''''), Recv ''A'' (CLIENT_SDP_OFFER ''o'')]"
  let ?c = "run init ?ec"
  let ?sc = "\<lparr>webrtcEndpoint = None, pendingCandidates = []\<rparr>"
  have c: "status ?c = Running" "pool ?c 1 = Some (SO_endpoint ''A'' ''o'')"
    "sessions ?c ''A'' = Some ?sc" "playerEndpoint ?c = None"
    by (simp_all add: handlers init_def prims)
  from C5_answer_iff_all_steps_succeed
         [where w = ?c and t = 1 and i = "''A''" and sdpOffer = "''o''" and v = "''''"
            and s = ?sc and es = "[Reply 0 (Resolved '''')]" and ?es0.0 = ?ec] c
  have xc: "step ?c (Reply 1 (Resolved '''')) =
        ?c\<lparr>next_obj := Suc (next_obj ?c),
          sessions := (sessions ?c)(''A'' \<mapsto> ?sc\<lparr>webrtcEndpoint := Some (next_obj ?c)\<rparr>),
          listeners := (listeners ?c)(next_obj ?c \<mapsto> OnWebRtcEndpoint ''A''),
          trace := trace ?c @ [Console ERROR ''ERROR: Publisher endpoint doesn't exist''],
          pool := (pool ?c)(1 := None)\<rparr>"
    "answers ''A'' (run ?c [Reply 1 (Resolved ''''), Reply 0 (Resolved '''')]) = 0"
    by blast+
  have 3: "trace (step ?c (Reply 1 (Resolved ''''))) =
        trace ?c @ [Console ERROR ''ERROR: Publisher endpoint doesn't exist'']"
    "answers ''A'' (run ?c [Reply 1 (Resolved ''''), Reply 0 (Resolved '''')]) = 0"
    by (subst xc(1), simp, rule xc(2))
  let ?ed = "[Startup None, Recv ''P'' CLIENT_START_PUBLISH, Reply 0 (Resolved '''')]"
  let ?d = "run init ?ed"
  let ?off = "Recv ''A'' (CLIENT_SDP_OFFER ''o'')"
  let ?es = "[Recv ''A'' (CLIENT_ICE_CANDIDATE ''c1''),
      Reply 0 (Resolved ''''), Reply 1 (Resolved ''''),
      Recv ''A'' (CLIENT_ICE_CANDIDATE ''c2''), Reply 1 (Resolved ''''),
      Reply 1 (Resolved ''ans''), Reply 3 (Resolved ''''), Reply 1 (Resolved ''''),
      Reply 1 (Rejected ''x'')]"
  have n: "next_tid ?d = 1"
    by (simp add: handlers init_def prims)
  have d: "status ?d = Running" "sessions ?d ''A'' = None" "pipeline ?d = Some 0"
    "playerEndpoint ?d = None"
    by (simp_all add: handlers init_def prims)
  have d': "playerEndpoint (run ?d (?off # before_reply (next_tid ?d) ?es)) = Some 1"
    "next_obj (run ?d (?off # before_reply (next_tid ?d) ?es)) = 2"
    "take 4 (replies_to (next_tid ?d) ?es) =
       [Resolved '''', Resolved '''', Resolved ''ans'', Resolved '''']"
    "4 + length (candidates_on ''A'' (before_reply (next_tid ?d) ?es))
       \<le> length (replies_to (next_tid ?d) ?es)"
    "no_startup_error ?es"
    unfolding n by (simp_all add: handlers init_def prims no_startup_error_def)
  have cs: "candidates_on ''A'' (before_reply (next_tid ?d) ?es) = [''c1'']"
    unfolding n by simp
  from C5_answer_iff_all_steps_succeed
         [where w = ?d and i = "''A''" and sdpOffer = "''o''" and es = ?es and ?es0.0 = ?ed
            and p = 0 and pe = 1 and ep = 2 and ?v1.0 = "''''" and ?v2.0 = "''''"
            and a = "''ans''" and ?v4.0 = "''''"] d(1-3) d'
  have xd: "status (run ?d (?off # ?es)) = Running"
      "calls_by (next_tid ?d) (trace (run ?d (?off # ?es))) =
        [CreateWebRtcEndpoint 0, ConnectTo 1 2, ProcessOffer 2 ''o'', GatherCandidates 2] @
        map (AddIceCandidate 2) (candidates_on ''A'' (before_reply (next_tid ?d) ?es))"
      "pool (run ?d (?off # ?es)) (next_tid ?d) = None"
      "answered ''A'' (run ?d (?off # ?es)) = [Emit ''A'' (SERVER_SDP_ANSWER ''ans'')]"
    by blast+
  have 4: "status (run ?d (?off # ?es)) = Running"
    "calls_by 1 (trace (run ?d (?off # ?es))) =
        [CreateWebRtcEndpoint 0, ConnectTo 1 2, ProcessOffer 2 ''o'', GatherCandidates 2,
         AddIceCandidate 2 ''c1'']"
    "pool (run ?d (?off # ?es)) 1 = None"
    "answered ''A'' (run ?d (?off # ?es)) = [Emit ''A'' (SERVER_SDP_ANSWER ''ans'')]"
    using xd unfolding cs unfolding n by (simp_all only: append.simps list.map)
  have r: "step ?a (Reply 1 (Rejected ''e'')) = run init (?ea @ [Reply 1 (Rejected ''e'')])"
    "run ?a [Reply 1 (Rejected ''e''), Reply 1 (Resolved '''')] =
       run init (?ea @ [Reply 1 (Rejected ''e''), Reply 1 (Resolved '''')])"
    "step ?b ?off = run init [?off]"
    "run ?b [?off, Startup None] = run init [?off, Startup None]"
    "step ?c (Reply 1 (Resolved '''')) = run init (?ec @ [Reply 1 (Resolved '''')])"
    "run ?c [Reply 1 (Resolved ''''), Reply 0 (Resolved '''')] =
       run init (?ec @ [Reply 1 (Resolved ''''), Reply 0 (Resolved '''')])"
    "run ?d (?off # ?es) = run init (?ed @ ?off # ?es)"
    by (simp_all only: run_append run_Cons run_Nil)
  from a(2) 1 2 c(4) 3 d(4) 4 show ?thesis
    unfolding r by (simp only: append.simps simp_thms)
qed

subsection \<open>The order of the candidates\<close>

lemma candidate_dropped:
  "status w = Running \<Longrightarrow> sessions w i = None \<Longrightarrow>
     step w (Recv i (CLIENT_ICE_CANDIDATE c)) =
       w\<lparr>next_tid := Suc (next_tid w),
         trace := trace w @ [Console WARN ''Skip adding candidate, session doesn't exist:'']\<rparr>"
  by (simp add: step_def msgs prims)

lemma candidate_applied:
  "status w = Running \<Longrightarrow> sessions w i = Some s \<Longrightarrow> webrtcEndpoint s = Some ep \<Longrightarrow>
     step w (Recv i (CLIENT_ICE_CANDIDATE c)) =
       w\<lparr>next_tid := Suc (next_tid w),
         trace := trace w @ [Call (next_tid w) (AddIceCandidate ep c)],
         pool := (pool w)(next_tid w \<mapsto> IC_add)\<rparr>"
  by (simp add: step_def msgs prims)

text \<open>
  C2, as the code has it. A candidate that arrives on a socket without Session, that is
  before the offer, is dropped: the turn logs a warning and keeps nothing of it. One that
  arrives while the Session has no endpoint goes to the tail of the queue, and the turn
  does nothing else; one that arrives when the endpoint exists is handed to it in the
  same turn and leaves the queue alone. The offer handler empties the queue only after
  \<^verbatim>\<open>gatherCandidates\<close> has resolved, one call for each reply of the backend, in the
  order of the queue. So, when the offer of a socket without Session finds a pipeline,
  the publisher endpoint exists at the moment the endpoint is created, the four calls
  resolve, the backend replies to the call for each queued candidate and no failed start
  of the Kurento client ends the process meanwhile, the offer handler hands over exactly
  the candidates that arrived between the offer and the creation of the endpoint, in the
  order of their arrival, after \<^verbatim>\<open>gatherCandidates\<close>, and the queue is empty at
  the end. Under every interleaving, once the endpoint exists the queue only loses
  candidates, from its front; and a socket that has been sent its answer has a Session
  with an endpoint and an empty queue.
\<close>

theorem C2_queue_drained_before_answer:
  "(status w = Running \<and> sessions w i = None \<longrightarrow>
      step w (Recv i (CLIENT_ICE_CANDIDATE c)) =
        w\<lparr>next_tid := Suc (next_tid w),
          trace := trace w @ [Console WARN ''Skip adding candidate, session doesn't exist:'']\<rparr>) \<and>
   (status w = Running \<and> sessions w i = Some s \<and> webrtcEndpoint s = None \<longrightarrow>
      step w (Recv i (CLIENT_ICE_CANDIDATE c)) =
        w\<lparr>next_tid := Suc (next_tid w),
          sessions := (sessions w)(i \<mapsto> s\<lparr>pendingCandidates := pendingCandidates s @ [c]\<rparr>)\<rparr>) \<and>
   (status w = Running \<and> sessions w i = Some s \<and> webrtcEndpoint s = Some ep \<longrightarrow>
      step w (Recv i (CLIENT_ICE_CANDIDATE c)) =
        w\<lparr>next_tid := Suc (next_tid w),
          trace := trace w @ [Call (next_tid w) (AddIceCandidate ep c)],
          pool := (pool w)(next_tid w \<mapsto> IC_add)\<rparr>) \<and>
   (w = run init es0 \<and> status w = Running \<and> pool w t = Some (SO_drain i a) \<and>
    sessions w i = Some s \<and> webrtcEndpoint s = Some ep \<and> no_startup_error es \<longrightarrow>
      calls_by t (trace (run w es)) =
        calls_by t (trace w) @
          map (AddIceCandidate ep) (take (length (replies_to t es)) (pendingCandidates s))) \<and>
   (w = run init es0 \<and> status w = Running \<and> sessions w i = None \<and> pipeline w = Some p \<and>
    playerEndpoint (run w (Recv i (CLIENT_SDP_OFFER sdpOffer) #
       before_reply (next_tid w) es)) = Some pe \<and>
    next_obj (run w (Recv i (CLIENT_SDP_OFFER sdpOffer) #
       before_reply (next_tid w) es)) = ep \<and>
    take 4 (replies_to (next_tid w) es) =
      [Resolved v1, Resolved v2, Resolved a, Resolved v4] \<and>
    4 + length (candidates_on i (before_reply (next_tid w) es))
      \<le> length (replies_to (next_tid w) es) \<and>
    no_startup_error es \<longrightarrow>
      calls_by (next_tid w) (trace (run w (Recv i (CLIENT_SDP_OFFER sdpOffer) # es))) =
        [CreateWebRtcEndpoint p, ConnectTo pe ep, ProcessOffer ep sdpOffer,
         GatherCandidates ep] @
        map (AddIceCandidate ep) (candidates_on i (before_reply (next_tid w) es)) \<and>
      sessions (run w (Recv i (CLIENT_SDP_OFFER sdpOffer) # es)) i =
        Some \<lparr>webrtcEndpoint = Some ep, pendingCandidates = []\<rparr>) \<and>
   (w = run init es0 \<and> sessions w i = Some s \<and> webrtcEndpoint s = Some ep \<longrightarrow>
      (\<exists>s' n. sessions (run w es) i = Some s' \<and> webrtcEndpoint s' = Some ep \<and>
              pendingCandidates s' = drop n (pendingCandidates s))) \<and>
   (0 < answers i (run init es0) \<longrightarrow>
      (\<exists>ep. sessions (run init es0) i =
              Some \<lparr>webrtcEndpoint = Some ep, pendingCandidates = []\<rparr>))"
proof -
  have inv: "inv_pool (run init es0)" "inv_offer (run init es0)" "inv_ans (run init es0)"
    using inv_reach [of es0] inv_ans_reach [of es0] by simp_all
  have safe: "inv_safe (run init es0)" and tr: "inv_trace (run init es0)"
    using inv_safe_reach [of es0] inv_trace_reach [of es0] by simp_all
  have 1: "step w (Recv i (CLIENT_ICE_CANDIDATE c)) =
        w\<lparr>next_tid := Suc (next_tid w),
          trace := trace w @ [Console WARN ''Skip adding candidate, session doesn't exist:'']\<rparr>"
    if "status w = Running" "sessions w i = None"
    using that by (rule candidate_dropped)
  have 2: "step w (Recv i (CLIENT_ICE_CANDIDATE c)) =
        w\<lparr>next_tid := Suc (next_tid w),
          sessions := (sessions w)(i \<mapsto> s\<lparr>pendingCandidates := pendingCandidates s @ [c]\<rparr>)\<rparr>"
    if "status w = Running" "sessions w i = Some s" "webrtcEndpoint s = None"
    using that by (rule candidate_queued)
  have 3: "step w (Recv i (CLIENT_ICE_CANDIDATE c)) =
        w\<lparr>next_tid := Suc (next_tid w),
          trace := trace w @ [Call (next_tid w) (AddIceCandidate ep c)],
          pool := (pool w)(next_tid w \<mapsto> IC_add)\<rparr>"
    if "status w = Running" "sessions w i = Some s" "webrtcEndpoint s = Some ep"
    using that by (rule candidate_applied)
  have 4: "calls_by t (trace (run w es)) =
        calls_by t (trace w) @
          map (AddIceCandidate ep) (take (length (replies_to t es)) (pendingCandidates s))"
    if "w = run init es0" "status w = Running" "pool w t = Some (SO_drain i a)"
      "sessions w i = Some s" "webrtcEndpoint s = Some ep" "no_startup_error es"
  proof -
    from stays_running [OF safe [folded that(1)] inv(2,1) [folded that(1)] that(2,6)]
    have "status (run w es) = Running" .
    from drain_run [OF inv(1,2) [folded that(1)] this that(3,4,5)] show ?thesis
      by simp
  qed
  have 5: "calls_by (next_tid w) (trace (run w (Recv i (CLIENT_SDP_OFFER sdpOffer) # es))) =
        [CreateWebRtcEndpoint p, ConnectTo pe ep, ProcessOffer ep sdpOffer,
         GatherCandidates ep] @
        map (AddIceCandidate ep) (candidates_on i (before_reply (next_tid w) es)) \<and>
      sessions (run w (Recv i (CLIENT_SDP_OFFER sdpOffer) # es)) i =
        Some \<lparr>webrtcEndpoint = Some ep, pendingCandidates = []\<rparr>"
    if "w = run init es0" "status w = Running" "sessions w i = None" "pipeline w = Some p"
      "playerEndpoint (run w (Recv i (CLIENT_SDP_OFFER sdpOffer) #
         before_reply (next_tid w) es)) = Some pe"
      "next_obj (run w (Recv i (CLIENT_SDP_OFFER sdpOffer) #
         before_reply (next_tid w) es)) = ep"
      "take 4 (replies_to (next_tid w) es) =
         [Resolved v1, Resolved v2, Resolved a, Resolved v4]"
      "4 + length (candidates_on i (before_reply (next_tid w) es))
         \<le> length (replies_to (next_tid w) es)"
      "no_startup_error es"
  proof -
    from that(9) have "no_startup_error (Recv i (CLIENT_SDP_OFFER sdpOffer) # es)"
      by (simp add: no_startup_error_Cons)
    from stays_running [OF safe [folded that(1)] inv(2,1) [folded that(1)] that(2) this]
    have F: "status (run w (Recv i (CLIENT_SDP_OFFER sdpOffer) # es)) = Running" .
    from offer_exact [OF inv [folded that(1)] tr [folded that(1)] F that(3-8)]
    show ?thesis by simp
  qed
  have 6: "\<exists>s' n. sessions (run w es) i = Some s' \<and> webrtcEndpoint s' = Some ep \<and>
              pendingCandidates s' = drop n (pendingCandidates s)"
    if "w = run init es0" "sessions w i = Some s" "webrtcEndpoint s = Some ep"
    using endpoint_kept_run [OF inv(1,2) [folded that(1)] that(2,3), of es] by blast
  have 7: "\<exists>ep. sessions (run init es0) i =
              Some \<lparr>webrtcEndpoint = Some ep, pendingCandidates = []\<rparr>"
    if "0 < answers i (run init es0)"
  proof -
    from inv(3) that obtain s ep where "sessions (run init es0) i = Some s"
      "webrtcEndpoint s = Some ep" "pendingCandidates s = []"
      unfolding inv_ans_def by blast
    then show ?thesis
      by (cases s) auto
  qed
  show ?thesis
    by (intro conjI; intro impI, (elim conjE)?, rule 1 2 3 4 5 6 7, assumption+)
qed

theorem C2_queue_drained_before_answer_witness:
  "trace (run init [Startup None, Recv ''A'' (CLIENT_ICE_CANDIDATE ''c0'')]) =
     trace (run init [Startup None]) @
       [Console WARN ''Skip adding candidate, session doesn't exist:''] \<and>
   sessions (run init [Startup None, Recv ''P'' CLIENT_START_PUBLISH, Reply 0 (Resolved ''''),
      Reply 0 (Resolved ''''), Recv ''A'' (CLIENT_SDP_OFFER ''o''),
      Recv ''A'' (CLIENT_ICE_CANDIDATE ''c1''), Recv ''A'' (CLIENT_ICE_CANDIDATE ''c2'')]) ''A'' =
     Some \<lparr>webrtcEndpoint = None, pendingCandidates = [''c1'', ''c2'']\<rparr> \<and>
   trace (run init [Startup None, Recv ''P'' CLIENT_START_PUBLISH, Reply 0 (Resolved ''''),
      Reply 0 (Resolved ''''), Recv ''A'' (CLIENT_SDP_OFFER ''o''),
      Recv ''A'' (CLIENT_ICE_CANDIDATE ''c1''), Reply 1 (Resolved ''''),
      Recv ''A'' (CLIENT_ICE_CANDIDATE ''c2'')]) =
     trace (run init [Startup None, Recv ''P'' CLIENT_START_PUBLISH, Reply 0 (Resolved ''''),
      Reply 0 (Resolved ''''), Recv ''A'' (CLIENT_SDP_OFFER ''o''),
      Recv ''A'' (CLIENT_ICE_CANDIDATE ''c1''), Reply 1 (Resolved '''')]) @
       [Call 3 (AddIceCandidate 2 ''c2'')] \<and>
   sessions (run init [Startup None, Recv ''P'' CLIENT_START_PUBLISH, Reply 0 (Resolved ''''),
      Reply 0 (Resolved ''''), Recv ''A'' (CLIENT_SDP_OFFER ''o''),
      Recv ''A'' (CLIENT_ICE_CANDIDATE ''c1''), Reply 1 (Resolved ''''),
      Recv ''A'' (CLIENT_ICE_CANDIDATE ''c2'')]) ''A'' =
     Some \<lparr>webrtcEndpoint = Some 2, pendingCandidates = [''c1'']\<rparr> \<and>
   pool (run init [Startup None, Recv ''P'' CLIENT_START_PUBLISH, Reply 0 (Resolved ''''),
      Reply 0 (Resolved ''''), Recv ''A'' (CLIENT_SDP_OFFER ''o''),
      Recv ''A'' (CLIENT_ICE_CANDIDATE ''c1''), Recv ''A'' (CLIENT_ICE_CANDIDATE ''c2''),
      Recv ''A'' (CLIENT_ICE_CANDIDATE ''c3''), Reply 1 (Resolved ''''),
      Reply 1 (Resolved ''''), Reply 1 (Resolved ''ans''), Reply 1 (Resolved '''')]) 1 =
     Some (SO_drain ''A'' ''ans'') \<and>
   calls_by 1 (trace (run init [Startup None, Recv ''P'' CLIENT_START_PUBLISH,
      Reply 0 (Resolved ''''),
      Reply 0 (Resolved ''''), Recv ''A'' (CLIENT_SDP_OFFER ''o''),
      Recv ''A'' (CLIENT_ICE_CANDIDATE ''c1''), Recv ''A'' (CLIENT_ICE_CANDIDATE ''c2''),
      Recv ''A'' (CLIENT_ICE_CANDIDATE ''c3''), Reply 1 (Resolved ''''),
      Reply 1 (Resolved ''''), Reply 1 (Resolved ''ans''), Reply 1 (Resolved ''''),
      Reply 1 (Rejected ''x''), Recv ''A'' (CLIENT_ICE_CANDIDATE ''c4''),
      Reply 1 (Resolved ''''), Reply 1 (Resolved '''')])) =
     [CreateWebRtcEndpoint 0, ConnectTo 1 2, ProcessOffer 2 ''o'', GatherCandidates 2,
      AddIceCandidate 2 ''c1'', AddIceCandidate 2 ''c2'', AddIceCandidate 2 ''c3''] \<and>
   calls_by 2 (trace (run init [Startup None, Recv ''P'' CLIENT_START_PUBLISH,
      Reply 0 (Resolved ''''), Recv ''A'' (CLIENT_ICE_CANDIDATE ''c0''),
      Recv ''A'' (CLIENT_SDP_OFFER ''o''), Recv ''A'' (CLIENT_ICE_CANDIDATE ''c1''),
      Reply 0 (Resolved ''''), Recv ''A'' (CLIENT_ICE_CANDIDATE ''c2''),
      Reply 2 (Resolved ''''), Recv ''A'' (CLIENT_ICE_CANDIDATE ''c3''),
      Reply 2 (Resolved ''''), Reply 2 (Resolved ''ans''), Reply 2 (Resolved ''''),
      Reply 2 (Rejected ''x''), Reply 2 (Resolved '''')])) =
     [CreateWebRtcEndpoint 0, ConnectTo 1 2, ProcessOffer 2 ''o'', GatherCandidates 2,
      AddIceCandidate 2 ''c1'', AddIceCandidate 2 ''c2''] \<and>
   sessions (run init [Startup None, Recv ''P'' CLIENT_START_PUBLISH,
      Reply 0 (Resolved ''''), Recv ''A'' (CLIENT_ICE_CANDIDATE ''c0''),
      Recv ''A'' (CLIENT_SDP_OFFER ''o''), Recv ''A'' (CLIENT_ICE_CANDIDATE ''c1''),
      Reply 0 (Resolved ''''), Recv ''A'' (CLIENT_ICE_CANDIDATE ''c2''),
      Reply 2 (Resolved ''''), Recv ''A'' (CLIENT_ICE_CANDIDATE ''c3''),
      Reply 2 (Resolved ''''), Reply 2 (Resolved ''ans''), Reply 2 (Resolved ''''),
      Reply 2 (Rejected ''x''), Reply 2 (Resolved '''')]) ''A'' =
     Some \<lparr>webrtcEndpoint = Some 2, pendingCandidates = []\<rparr> \<and>
   (\<exists>s' n. sessions (run init [Startup None, Recv ''P'' CLIENT_START_PUBLISH,
      Reply 0 (Resolved ''''),
      Reply 0 (Resolved ''''), Recv ''A'' (CLIENT_SDP_OFFER ''o''),
      Recv ''A'' (CLIENT_ICE_CANDIDATE ''c1''), Recv ''A'' (CLIENT_ICE_CANDIDATE ''c2''),
      Recv ''A'' (CLIENT_ICE_CANDIDATE ''c3''), Reply 1 (Resolved ''''),
      Reply 1 (Resolved ''''), Reply 1 (Resolved ''ans''), Reply 1 (Resolved ''''),
      Reply 1 (Rejected ''x''), Recv ''A'' (CLIENT_ICE_CANDIDATE ''c4''),
      Reply 1 (Resolved ''''), Reply 1 (Resolved '''')]) ''A'' = Some s' \<and>
      webrtcEndpoint s' = Some 2 \<and> pendingCandidates s' = drop n [''c2'', ''c3'']) \<and>
   answers ''A'' (run init [Startup None, Recv ''P'' CLIENT_START_PUBLISH,
      Reply 0 (Resolved ''''),
      Reply 0 (Resolved ''''), Recv ''A'' (CLIENT_SDP_OFFER ''o''),
      Recv ''A'' (CLIENT_ICE_CANDIDATE ''c1''), Recv ''A'' (CLIENT_ICE_CANDIDATE ''c2''),
      Recv ''A'' (CLIENT_ICE_CANDIDATE ''c3''), Reply 1 (Resolved ''''),
      Reply 1 (Resolved ''''), Reply 1 (Resolved ''ans''), Reply 1 (Resolved ''''),
      Reply 1 (Rejected ''x''), Recv ''A'' (CLIENT_ICE_CANDIDATE ''c4''),
      Reply 1 (Resolved ''''), Reply 1 (Resolved '''')]) = 1 \<and>
   (\<exists>ep. sessions (run init [Startup None, Recv ''P'' CLIENT_START_PUBLISH,
      Reply 0 (Resolved ''''),
      Reply 0 (Resolved ''''), Recv ''A'' (CLIENT_SDP_OFFER ''o''),
      Recv ''A'' (CLIENT_ICE_CANDIDATE ''c1''), Recv ''A'' (CLIENT_ICE_CANDIDATE ''c2''),
      Recv ''A'' (CLIENT_ICE_CANDIDATE ''c3''), Reply 1 (Resolved ''''),
      Reply 1 (Resolved ''''), Reply 1 (Resolved ''ans''), Reply 1 (Resolved ''''),
      Reply 1 (Rejected ''x''), Recv ''A'' (CLIENT_ICE_CANDIDATE ''c4''),
      Reply 1 (Resolved ''''), Reply 1 (Resolved '''')]) ''A'' =
        Some \<lparr>webrtcEndpoint = Some ep, pendingCandidates = []\<rparr>)"
proof -
  let ?z = "run init [Startup None]"
  have z: "status ?z = Running" "sessions ?z ''A'' = None"
    by (simp_all add: handlers init_def prims)
  from C2_queue_drained_before_answer [where w = ?z and i = "''A''" and c = "''c0''"] z
  have x0: "step ?z (Recv ''A'' (CLIENT_ICE_CANDIDATE ''c0'')) =
      ?z\<lparr>next_tid := Suc (next_tid ?z),
        trace := trace ?z @ [Console WARN ''Skip adding candidate, session doesn't exist:'']\<rparr>"
    by blast
  have 0: "trace (step ?z (Recv ''A'' (CLIENT_ICE_CANDIDATE ''c0''))) =
      trace ?z @ [Console WARN ''Skip adding candidate, session doesn't exist:'']"
    by (subst x0) simp
  let ?off = "[Startup None, Recv ''P'' CLIENT_START_PUBLISH, Reply 0 (Resolved ''''),
      Reply 0 (Resolved ''''), Recv ''A'' (CLIENT_SDP_OFFER ''o''),
      Recv ''A'' (CLIENT_ICE_CANDIDATE ''c1'')]"
  let ?a = "run init ?off"
  let ?s0 = "\<lparr>webrtcEndpoint = None, pendingCandidates = [''c1'']\<rparr>"
  have a: "status ?a = Running" "sessions ?a ''A'' = Some ?s0" "webrtcEndpoint ?s0 = None"
    by (simp_all add: handlers init_def prims)
  from C2_queue_drained_before_answer
         [where w = ?a and i = "''A''" and c = "''c2''" and s = ?s0] a
  have x1: "step ?a (Recv ''A'' (CLIENT_ICE_CANDIDATE ''c2'')) =
      ?a\<lparr>next_tid := Suc (next_tid ?a),
        sessions := (sessions ?a)(''A'' \<mapsto> ?s0\<lparr>pendingCandidates := pendingCandidates ?s0 @ [''c2'']\<rparr>)\<rparr>"
    by blast
  have 1: "sessions (step ?a (Recv ''A'' (CLIENT_ICE_CANDIDATE ''c2''))) ''A'' =
      Some \<lparr>webrtcEndpoint = None, pendingCandidates = [''c1'', ''c2'']\<rparr>"
    by (subst x1) simp
  let ?g = "run init (?off @ [Reply 1 (Resolved '''')])"
  let ?s1 = "\<lparr>webrtcEndpoint = Some 2, pendingCandidates = [''c1'']\<rparr>"
  have g: "status ?g = Running" "sessions ?g ''A'' = Some ?s1" "webrtcEndpoint ?s1 = Some 2"
    by (simp_all add: handlers init_def prims)
  have ng: "next_tid ?g = 3"
    by (simp add: handlers init_def prims)
  from C2_queue_drained_before_answer
         [where w = ?g and i = "''A''" and c = "''c2''" and s = ?s1 and ep = 2] g
  have x2: "step ?g (Recv ''A'' (CLIENT_ICE_CANDIDATE ''c2'')) =
      ?g\<lparr>next_tid := Suc (next_tid ?g),
        trace := trace ?g @ [Call (next_tid ?g) (AddIceCandidate 2 ''c2'')],
        pool := (pool ?g)(next_tid ?g \<mapsto> IC_add)\<rparr>"
    by blast
  have 2: "trace (step ?g (Recv ''A'' (CLIENT_ICE_CANDIDATE ''c2''))) =
      trace ?g @ [Call 3 (AddIceCandidate 2 ''c2'')]"
    by (subst x2, simp only: ng, simp)
  have 7: "sessions (step ?g (Recv ''A'' (CLIENT_ICE_CANDIDATE ''c2''))) ''A'' = Some ?s1"
    using g(2) by (subst x2) simp
  let ?mid = "?off @ [Recv ''A'' (CLIENT_ICE_CANDIDATE ''c2''),
      Recv ''A'' (CLIENT_ICE_CANDIDATE ''c3''), Reply 1 (Resolved ''''),
      Reply 1 (Resolved ''''), Reply 1 (Resolved ''ans''), Reply 1 (Resolved '''')]"
  let ?b = "run init ?mid"
  let ?es = "[Reply 1 (Rejected ''x''), Recv ''A'' (CLIENT_ICE_CANDIDATE ''c4''),
      Reply 1 (Resolved ''''), Reply 1 (Resolved '''')]"
  let ?s2 = "\<lparr>webrtcEndpoint = Some 2, pendingCandidates = [''c2'', ''c3'']\<rparr>"
  have b: "status ?b = Running" "pool ?b 1 = Some (SO_drain ''A'' ''ans'')"
    "sessions ?b ''A'' = Some ?s2" "webrtcEndpoint ?s2 = Some 2" "no_startup_error ?es"
    by (simp_all add: handlers init_def prims drain_eq no_startup_error_def)
  have cb: "calls_by 1 (trace ?b) =
      [CreateWebRtcEndpoint 0, ConnectTo 1 2, ProcessOffer 2 ''o'', GatherCandidates 2,
       AddIceCandidate 2 ''c1'']"
    by (simp add: handlers init_def prims drain_eq)
  from C2_queue_drained_before_answer
         [where w = ?b and ?es0.0 = ?mid and t = 1 and i = "''A''" and a = "''ans''" and ep = 2
            and s = ?s2 and es = ?es] b
  have "calls_by 1 (trace (run ?b ?es)) =
      calls_by 1 (trace ?b) @
        map (AddIceCandidate 2) (take (length (replies_to 1 ?es)) (pendingCandidates ?s2))"
    by blast
  then have 3: "calls_by 1 (trace (run ?b ?es)) =
      [CreateWebRtcEndpoint 0, ConnectTo 1 2, ProcessOffer 2 ''o'', GatherCandidates 2,
       AddIceCandidate 2 ''c1'', AddIceCandidate 2 ''c2'', AddIceCandidate 2 ''c3'']"
    unfolding cb by simp
  let ?ed = "[Startup None, Recv ''P'' CLIENT_START_PUBLISH, Reply 0 (Resolved ''''),
      Recv ''A'' (CLIENT_ICE_CANDIDATE ''c0'')]"
  let ?d = "run init ?ed"
  let ?o = "Recv ''A'' (CLIENT_SDP_OFFER ''o'')"
  let ?fs = "[Recv ''A'' (CLIENT_ICE_CANDIDATE ''c1''),
      Reply 0 (Resolved ''''), Recv ''A'' (CLIENT_ICE_CANDIDATE ''c2''),
      Reply 2 (Resolved ''''), Recv ''A'' (CLIENT_ICE_CANDIDATE ''c3''),
      Reply 2 (Resolved ''''), Reply 2 (Resolved ''ans''), Reply 2 (Resolved ''''),
      Reply 2 (Rejected ''x''), Reply 2 (Resolved '''')]"
  have n: "next_tid ?d = 2"
    by (simp add: handlers init_def prims)
  have d: "status ?d = Running" "sessions ?d ''A'' = None" "pipeline ?d = Some 0"
    by (simp_all add: handlers init_def prims)
  have d': "playerEndpoint (run ?d (?o # before_reply (next_tid ?d) ?fs)) = Some 1"
    "next_obj (run ?d (?o # before_reply (next_tid ?d) ?fs)) = 2"
    "take 4 (replies_to (next_tid ?d) ?fs) =
       [Resolved '''', Resolved '''', Resolved ''ans'', Resolved '''']"
    "4 + length (candidates_on ''A'' (before_reply (next_tid ?d) ?fs))
       \<le> length (replies_to (next_tid ?d) ?fs)"
    "no_startup_error ?fs"
    unfolding n by (simp_all add: handlers init_def prims no_startup_error_def)
  have cs: "candidates_on ''A'' (before_reply (next_tid ?d) ?fs) = [''c1'', ''c2'']"
    unfolding n by simp
  from C2_queue_drained_before_answer
         [where w = ?d and i = "''A''" and sdpOffer = "''o''" and es = ?fs and ?es0.0 = ?ed
            and p = 0 and pe = 1 and ep = 2 and ?v1.0 = "''''" and ?v2.0 = "''''"
            and a = "''ans''" and ?v4.0 = "''''"] d d'
  have xd: "calls_by (next_tid ?d) (trace (run ?d (?o # ?fs))) =
        [CreateWebRtcEndpoint 0, ConnectTo 1 2, ProcessOffer 2 ''o'', GatherCandidates 2] @
        map (AddIceCandidate 2) (candidates_on ''A'' (before_reply (next_tid ?d) ?fs))"
      "sessions (run ?d (?o # ?fs)) ''A'' =
        Some \<lparr>webrtcEndpoint = Some 2, pendingCandidates = []\<rparr>"
    by blast+
  have 4: "calls_by 2 (trace (run ?d (?o # ?fs))) =
        [CreateWebRtcEndpoint 0, ConnectTo 1 2, ProcessOffer 2 ''o'', GatherCandidates 2,
         AddIceCandidate 2 ''c1'', AddIceCandidate 2 ''c2'']"
    "sessions (run ?d (?o # ?fs)) ''A'' =
        Some \<lparr>webrtcEndpoint = Some 2, pendingCandidates = []\<rparr>"
    using xd unfolding cs unfolding n by (simp_all only: append.simps list.map)
  from C2_queue_drained_before_answer
         [where w = ?b and ?es0.0 = ?mid and i = "''A''" and s = ?s2 and ep = 2 and es = ?es]
       b(3,4)
  have 5: "\<exists>s' n. sessions (run ?b ?es) ''A'' = Some s' \<and> webrtcEndpoint s' = Some 2 \<and>
      pendingCandidates s' = drop n (pendingCandidates ?s2)"
    by blast
  have an: "answers ''A'' (run init (?mid @ ?es)) = 1"
    by (simp add: handlers init_def prims drain_eq answers_def)
  then have "0 < answers ''A'' (run init (?mid @ ?es))"
    by simp
  with C2_queue_drained_before_answer [where i = "''A''" and ?es0.0 = "?mid @ ?es"]
  have 6: "\<exists>ep. sessions (run init (?mid @ ?es)) ''A'' =
      Some \<lparr>webrtcEndpoint = Some ep, pendingCandidates = []\<rparr>"
    by blast
  have r: "step ?z (Recv ''A'' (CLIENT_ICE_CANDIDATE ''c0'')) =
        run init ([Startup None] @ [Recv ''A'' (CLIENT_ICE_CANDIDATE ''c0'')])"
    "step ?a (Recv ''A'' (CLIENT_ICE_CANDIDATE ''c2'')) =
        run init (?off @ [Recv ''A'' (CLIENT_ICE_CANDIDATE ''c2'')])"
    "step ?g (Recv ''A'' (CLIENT_ICE_CANDIDATE ''c2'')) =
        run init ((?off @ [Reply 1 (Resolved '''')]) @ [Recv ''A'' (CLIENT_ICE_CANDIDATE ''c2'')])"
    "run ?b ?es = run init (?mid @ ?es)"
    "run ?d (?o # ?fs) = run init (?ed @ ?o # ?fs)"
    by (simp_all only: run_append run_Cons run_Nil)
  have p: "pendingCandidates ?s2 = [''c2'', ''c3'']"
    by simp
  from 0 1 2 7 b(2) 3 4 5 6 an show ?thesis
    unfolding r p by (simp only: append.simps simp_thms)
qed

text \<open>
  C2 as stated fails. Candidate \<open>c0\<close> arrives before the offer and is dropped with a
  warning; no call ever hands it to the endpoint. Candidate \<open>c1\<close> arrives while the
  endpoint is being created and is queued; when the endpoint exists the queue still
  holds it; candidate \<open>c2\<close> arrives during \<^verbatim>\<open>connect\<close> and is handed to the
  endpoint at once; \<open>c1\<close> follows when the queue is emptied, after
  \<^verbatim>\<open>gatherCandidates\<close>.
\<close>

theorem C2_counterexample:
  "candidates_on ''A'' [Startup None, Recv ''P'' CLIENT_START_PUBLISH, Reply 0 (Resolved ''''),
      Reply 0 (Resolved ''''), Reply 0 (Resolved ''''),
      Recv ''A'' (CLIENT_ICE_CANDIDATE ''c0''), Recv ''A'' (CLIENT_SDP_OFFER ''o''),
      Recv ''A'' (CLIENT_ICE_CANDIDATE ''c1''), Reply 2 (Resolved ''''),
      Recv ''A'' (CLIENT_ICE_CANDIDATE ''c2''), Reply 2 (Resolved ''''),
      Reply 2 (Resolved ''ans''), Reply 2 (Resolved ''''), Reply 2 (Resolved '''')] =
     [''c0'', ''c1'', ''c2''] \<and>
   applied (trace (run init [Startup None, Recv ''P'' CLIENT_START_PUBLISH,
      Reply 0 (Resolved ''''),
      Reply 0 (Resolved ''''), Reply 0 (Resolved ''''),
      Recv ''A'' (CLIENT_ICE_CANDIDATE ''c0''), Recv ''A'' (CLIENT_SDP_OFFER ''o''),
      Recv ''A'' (CLIENT_ICE_CANDIDATE ''c1''), Reply 2 (Resolved ''''),
      Recv ''A'' (CLIENT_ICE_CANDIDATE ''c2''), Reply 2 (Resolved ''''),
      Reply 2 (Resolved ''ans''), Reply 2 (Resolved ''''), Reply 2 (Resolved '''')])) =
     [''c2'', ''c1''] \<and>
   answered ''A'' (run init [Startup None, Recv ''P'' CLIENT_START_PUBLISH,
      Reply 0 (Resolved ''''),
      Reply 0 (Resolved ''''), Reply 0 (Resolved ''''),
      Recv ''A'' (CLIENT_ICE_CANDIDATE ''c0''), Recv ''A'' (CLIENT_SDP_OFFER ''o''),
      Recv ''A'' (CLIENT_ICE_CANDIDATE ''c1''), Reply 2 (Resolved ''''),
      Recv ''A'' (CLIENT_ICE_CANDIDATE ''c2''), Reply 2 (Resolved ''''),
      Reply 2 (Resolved ''ans''), Reply 2 (Resolved ''''), Reply 2 (Resolved '''')]) =
     [Emit ''A'' (SERVER_SDP_ANSWER ''ans'')] \<and>
   trace (run init [Startup None, Recv ''P'' CLIENT_START_PUBLISH, Reply 0 (Resolved ''''),
      Reply 0 (Resolved ''''), Reply 0 (Resolved ''''),
      Recv ''A'' (CLIENT_ICE_CANDIDATE ''c0'')]) =
     trace (run init [Startup None, Recv ''P'' CLIENT_START_PUBLISH, Reply 0 (Resolved ''''),
      Reply 0 (Resolved ''''), Reply 0 (Resolved '''')]) @
     [Console WARN ''Skip adding candidate, session doesn't exist:''] \<and>
   sessions (run init [Startup None, Recv ''P'' CLIENT_START_PUBLISH, Reply 0 (Resolved ''''),
      Reply 0 (Resolved ''''), Reply 0 (Resolved ''''),
      Recv ''A'' (CLIENT_ICE_CANDIDATE ''c0''), Recv ''A'' (CLIENT_SDP_OFFER ''o''),
      Recv ''A'' (CLIENT_ICE_CANDIDATE ''c1''), Reply 2 (Resolved '''')]) ''A'' =
     Some \<lparr>webrtcEndpoint = Some 2, pendingCandidates = [''c1'']\<rparr>"
  by (simp add: handlers init_def prims drain_eq answered_def)

end
